theory Spec2Isabelle
  imports Complex_Main
begin

section \<open>Python strings\<close>

text \<open>
  A Python \<open>str\<close> is modelled as a \<open>string\<close>, one \<open>char\<close> per code point, which covers
  the code points below 256. The operations below are the \<open>str\<close> methods that
  \<open>detect_simple_vulnerabilities\<close> calls.
\<close>

definition upper_chars :: string where
  "upper_chars = ''ABCDEFGHIJKLMNOPQRSTUVWXYZ'' @
     [CHR 0xC0, CHR 0xC1, CHR 0xC2, CHR 0xC3, CHR 0xC4, CHR 0xC5, CHR 0xC6, CHR 0xC7,
      CHR 0xC8, CHR 0xC9, CHR 0xCA, CHR 0xCB, CHR 0xCC, CHR 0xCD, CHR 0xCE, CHR 0xCF,
      CHR 0xD0, CHR 0xD1, CHR 0xD2, CHR 0xD3, CHR 0xD4, CHR 0xD5, CHR 0xD6,
      CHR 0xD8, CHR 0xD9, CHR 0xDA, CHR 0xDB, CHR 0xDC, CHR 0xDD, CHR 0xDE]"

definition lower_chars :: string where
  "lower_chars = ''abcdefghijklmnopqrstuvwxyz'' @
     [CHR 0xE0, CHR 0xE1, CHR 0xE2, CHR 0xE3, CHR 0xE4, CHR 0xE5, CHR 0xE6, CHR 0xE7,
      CHR 0xE8, CHR 0xE9, CHR 0xEA, CHR 0xEB, CHR 0xEC, CHR 0xED, CHR 0xEE, CHR 0xEF,
      CHR 0xF0, CHR 0xF1, CHR 0xF2, CHR 0xF3, CHR 0xF4, CHR 0xF5, CHR 0xF6,
      CHR 0xF8, CHR 0xF9, CHR 0xFA, CHR 0xFB, CHR 0xFC, CHR 0xFD, CHR 0xFE]"

text \<open>\<open>str.lower\<close> on one code point below 256: the letters A-Z and the Latin-1 capitals.\<close>

definition lower_char :: "char \<Rightarrow> char" where
  "lower_char c = (case map_of (zip upper_chars lower_chars) c of Some d \<Rightarrow> d | None \<Rightarrow> c)"

definition lower :: "string \<Rightarrow> string" where
  "lower s = map lower_char s"

definition starts_with :: "string \<Rightarrow> string \<Rightarrow> bool" where
  "starts_with s p = (take (length p) s = p)"

text \<open>\<open>p in s\<close> for two strings: \<open>p\<close> occurs in \<open>s\<close> as a contiguous substring.\<close>

fun str_in :: "string \<Rightarrow> string \<Rightarrow> bool" where
  "str_in p [] = (p = [])"
| "str_in p (c # cs) = (starts_with (c # cs) p \<or> str_in p cs)"

text \<open>\<open>s.find(p)\<close>: the lowest index at which \<open>p\<close> occurs in \<open>s\<close>, or \<open>-1\<close>.\<close>

fun find_from :: "int \<Rightarrow> string \<Rightarrow> string \<Rightarrow> int" where
  "find_from i [] p = (if p = [] then i else - 1)"
| "find_from i (c # cs) p = (if starts_with (c # cs) p then i else find_from (i + 1) cs p)"

definition str_find :: "string \<Rightarrow> string \<Rightarrow> int" where
  "str_find s p = find_from 0 s p"

text \<open>\<open>str.isspace\<close> on one code point below 256.\<close>

definition is_space :: "char \<Rightarrow> bool" where
  "is_space c = (c \<in> set [CHR 0x09, CHR 0x0A, CHR 0x0B, CHR 0x0C, CHR 0x0D,
                          CHR 0x1C, CHR 0x1D, CHR 0x1E, CHR 0x1F, CHR 0x20, CHR 0x85, CHR 0xA0])"

definition strip :: "string \<Rightarrow> string" where
  "strip s = rev (dropWhile is_space (rev (dropWhile is_space s)))"

text \<open>\<open>s.split('\n')\<close>: never empty; the empty string gives one empty line.\<close>

fun split_nl :: "string \<Rightarrow> string list" where
  "split_nl [] = [[]]"
| "split_nl (c # cs) =
     (if c = CHR 0x0A then [] # split_nl cs
      else (case split_nl cs of [] \<Rightarrow> [[c]] | l # ls \<Rightarrow> (c # l) # ls))"

text \<open>Decimal digits of a natural number, as \<open>str(n)\<close> prints them.\<close>

fun str_nat :: "nat \<Rightarrow> string" where
  "str_nat n = (if n < 10 then [''0123456789'' ! n]
                else str_nat (n div 10) @ [''0123456789'' ! (n mod 10)])"

declare str_nat.simps [simp del]

text \<open>Rounding to the nearest integer, ties to the even one, as float formatting does.\<close>

definition round_half_even :: "real \<Rightarrow> int" where
  "round_half_even x =
     (let n = \<lfloor>x\<rfloor>; d = x - of_int n
      in if d < 1 / 2 then n else if 1 / 2 < d then n + 1 else if even n then n else n + 1)"

text \<open>\<open>format(x, '.0%')\<close>: the value times one hundred with no decimals, and a percent sign.\<close>

definition format_percent :: "real \<Rightarrow> string" where
  "format_percent x =
     (if x < 0 then ''-'' else '''') @ str_nat (nat (round_half_even (\<bar>x\<bar> * 100))) @ ''%''"

section \<open>The classifier: \<open>ml_service/model_loader.py\<close>\<close>

text \<open>An exception, carrying the text that \<open>str(e)\<close> gives.\<close>

datatype exn = Exception string

text \<open>
  The dictionaries \<open>predict\<close> returns have the four keys \<open>category\<close>, \<open>confidence\<close>,
  \<open>severity\<close> and \<open>source\<close>.
\<close>

record prediction =
  p_category :: string
  p_confidence :: real
  p_severity :: string
  p_source :: string

text \<open>
  The two attributes of a \<open>VulnerabilityDetector\<close>. Both are \<open>None\<close> when loading failed.
  The pretrained tokenizer and network are not code of the repository: \<open>tokenizer\<close> maps
  the code to the input ids or raises, and \<open>model\<close> maps the input ids to the row
  \<open>outputs.logits[0]\<close> or raises.
\<close>

record VulnerabilityDetector =
  tokenizer :: "(string \<Rightarrow> exn + nat list) option"
  model :: "(nat list \<Rightarrow> exn + real list) option"

definition vulnerability_labels :: "string list" where
  "vulnerability_labels =
     [''SQL Injection'', ''Cross-Site Scripting (XSS)'', ''Hardcoded Secrets'',
      ''Path Traversal'', ''Command Injection'', ''Insecure Deserialization'',
      ''SSRF'', ''XXE'', ''Buffer Overflow'', ''Race Condition'']"

definition get_severity :: "string \<Rightarrow> string" where
  "get_severity category =
     (let critical = [''SQL Injection'', ''Command Injection'', ''Buffer Overflow''];
          high = [''Cross-Site Scripting (XSS)'', ''Path Traversal'',
                  ''Insecure Deserialization'', ''SSRF'', ''XXE'']
      in if category \<in> set critical then ''CRITICAL''
         else if category \<in> set high then ''HIGH''
         else ''MEDIUM'')"

text \<open>\<open>torch.sigmoid\<close>, over the reals.\<close>

definition sigmoid :: "real \<Rightarrow> real" where
  "sigmoid x = 1 / (1 + exp (- x))"

text \<open>
  The loop \<open>for idx, score in enumerate(predictions[0])\<close>. Reading
  \<open>vulnerability_labels[idx]\<close> beyond the ten labels raises IndexError.
\<close>

fun extract_results ::
  "real \<Rightarrow> nat \<Rightarrow> real list \<Rightarrow> prediction list \<Rightarrow> exn + prediction list" where
  "extract_results threshold idx [] results = Inr results"
| "extract_results threshold idx (score # scores) results =
     (if threshold < score then
        (if idx < length vulnerability_labels then
           extract_results threshold (idx + 1) scores
             (results @ [\<lparr>p_category = vulnerability_labels ! idx,
                          p_confidence = score,
                          p_severity = get_severity (vulnerability_labels ! idx),
                          p_source = ''ml_model''\<rparr>])
         else Inl (Exception ''list index out of range''))
      else extract_results threshold (idx + 1) scores results)"

text \<open>
  \<open>VulnerabilityDetector.predict\<close>. It returns the predictions and the lines it printed;
  every exception raised inside is caught there and gives no predictions.
\<close>

definition predict ::
  "VulnerabilityDetector \<Rightarrow> string \<Rightarrow> real \<Rightarrow> prediction list \<times> string list" where
  "predict self code threshold =
     (case (model self, tokenizer self) of
        (Some m, Some t) \<Rightarrow>
          (case t code of
             Inl (Exception e) \<Rightarrow> ([], [''Error in ML prediction: '' @ e])
           | Inr inputs \<Rightarrow>
               (case m inputs of
                  Inl (Exception e) \<Rightarrow> ([], [''Error in ML prediction: '' @ e])
                | Inr logits \<Rightarrow>
                    (case extract_results threshold 0 (map sigmoid logits) [] of
                       Inl (Exception e) \<Rightarrow> ([], [''Error in ML prediction: '' @ e])
                     | Inr results \<Rightarrow> (results, []))))
      | _ \<Rightarrow> ([], []))"

section \<open>The detection engine: \<open>api/routers/analysis.py\<close>\<close>

text \<open>The class \<open>Vulnerability\<close>. A Python float is a real number here.\<close>

record Vulnerability =
  vuln_id :: string
  category :: string
  severity :: string
  line_number :: int
  column_number :: int
  message :: string
  code_snippet :: string
  confidence_score :: real

definition sql_patterns :: "string list" where
  "sql_patterns = [''execute('', ''cursor.execute('', ''.query('', ''SELECT * FROM'']"

definition xss_patterns :: "string list" where
  "xss_patterns = [''innerHTML ='', ''document.write('', ''eval('']"

definition secret_patterns :: "string list" where
  "secret_patterns = [''password ='', ''api_key ='', ''secret ='', ''token ='']"

text \<open>
  \<open>uuid.uuid4()\<close> draws from the system's random source. The draws of one call of
  \<open>detect_simple_vulnerabilities\<close> are a parameter \<open>uuid4\<close>: \<open>uuid4 k\<close> is the text of the
  \<open>k\<close>-th draw. One value is drawn for each finding appended and the list starts empty, so
  the finding appended to a list \<open>vs\<close> gets \<open>uuid4 (length vs)\<close>.
\<close>

type_synonym uuid_source = "nat \<Rightarrow> string"

text \<open>The three inner loops over the patterns, for one line.\<close>

definition check_sql ::
  "uuid_source \<Rightarrow> int \<Rightarrow> string \<Rightarrow> Vulnerability list \<Rightarrow> Vulnerability list" where
  "check_sql uuid4 line_num line vulnerabilities =
     foldl (\<lambda>vs pattern.
        if str_in (lower pattern) (lower line) \<and> CHR ''+'' \<in> set line
        then vs @ [\<lparr>vuln_id = uuid4 (length vs),
                    category = ''SQL Injection'',
                    severity = ''CRITICAL'',
                    line_number = line_num,
                    column_number = str_find line pattern,
                    message = ''Possible SQL injection: String concatenation in SQL query'',
                    code_snippet = strip line,
                    confidence_score = 0.75\<rparr>]
        else vs) vulnerabilities sql_patterns"

definition check_xss ::
  "uuid_source \<Rightarrow> int \<Rightarrow> string \<Rightarrow> Vulnerability list \<Rightarrow> Vulnerability list" where
  "check_xss uuid4 line_num line vulnerabilities =
     foldl (\<lambda>vs pattern.
        if str_in (lower pattern) (lower line)
        then vs @ [\<lparr>vuln_id = uuid4 (length vs),
                    category = ''Cross-Site Scripting (XSS)'',
                    severity = ''HIGH'',
                    line_number = line_num,
                    column_number = str_find line pattern,
                    message = ''Possible XSS vulnerability: Unsafe HTML manipulation'',
                    code_snippet = strip line,
                    confidence_score = 0.68\<rparr>]
        else vs) vulnerabilities xss_patterns"

definition check_secrets ::
  "uuid_source \<Rightarrow> int \<Rightarrow> string \<Rightarrow> Vulnerability list \<Rightarrow> Vulnerability list" where
  "check_secrets uuid4 line_num line vulnerabilities =
     foldl (\<lambda>vs pattern.
        if str_in (lower pattern) (lower line) \<and> (CHR ''='' \<in> set line \<or> CHR '':'' \<in> set line)
        then (if CHR 0x22 \<in> set line \<or> CHR 0x27 \<in> set line
              then vs @ [\<lparr>vuln_id = uuid4 (length vs),
                          category = ''Hardcoded Secrets'',
                          severity = ''HIGH'',
                          line_number = line_num,
                          column_number = str_find line pattern,
                          message = ''Hardcoded secret detected: Use environment variables instead'',
                          code_snippet = strip line,
                          confidence_score = 0.82\<rparr>]
              else vs)
        else vs) vulnerabilities secret_patterns"

text \<open>The loop \<open>for line_num, line in enumerate(lines, start=1)\<close>.\<close>

fun scan_lines ::
  "uuid_source \<Rightarrow> int \<Rightarrow> string list \<Rightarrow> Vulnerability list \<Rightarrow> Vulnerability list" where
  "scan_lines uuid4 line_num [] vulnerabilities = vulnerabilities"
| "scan_lines uuid4 line_num (line # lines) vulnerabilities =
     scan_lines uuid4 (line_num + 1) lines
       (check_secrets uuid4 line_num line
         (check_xss uuid4 line_num line
           (check_sql uuid4 line_num line vulnerabilities)))"

text \<open>The pattern-based part of the function: the list as it stands before the model is asked.\<close>

definition pattern_detection :: "uuid_source \<Rightarrow> string \<Rightarrow> Vulnerability list" where
  "pattern_detection uuid4 code = scan_lines uuid4 1 (split_nl code) []"

text \<open>The loop \<open>for pred in ml_predictions\<close>.\<close>

fun ml_merge ::
  "uuid_source \<Rightarrow> string \<Rightarrow> prediction list \<Rightarrow> Vulnerability list \<Rightarrow> Vulnerability list" where
  "ml_merge uuid4 code [] vulnerabilities = vulnerabilities"
| "ml_merge uuid4 code (pred # preds) vulnerabilities =
     (let is_duplicate = list_ex (\<lambda>v. category v = p_category pred) vulnerabilities
      in if \<not> is_duplicate then
           ml_merge uuid4 code preds
             (vulnerabilities @
               [\<lparr>vuln_id = uuid4 (length vulnerabilities),
                 category = p_category pred,
                 severity = p_severity pred,
                 line_number = 1,
                 column_number = 0,
                 message = ''ML Model detected '' @ p_category pred @ '' (confidence: '' @
                           format_percent (p_confidence pred) @ '')'',
                 code_snippet = (if 100 < length code then take 100 code @ ''...'' else code),
                 confidence_score = p_confidence pred\<rparr>])
         else ml_merge uuid4 code preds vulnerabilities)"

text \<open>
  The module's two globals: \<open>ML_AVAILABLE\<close>, and what the call \<open>get_detector()\<close> gives,
  the detector or the exception it raises.
\<close>

record ml_env =
  ML_AVAILABLE :: bool
  get_detector :: "exn + VulnerabilityDetector"

text \<open>
  \<open>detect_simple_vulnerabilities\<close>. It returns the list of findings and the lines printed
  during the call. The parameter \<open>language\<close> is not read.
\<close>

definition detect_simple_vulnerabilities ::
  "ml_env \<Rightarrow> uuid_source \<Rightarrow> string \<Rightarrow> string \<Rightarrow> Vulnerability list \<times> string list" where
  "detect_simple_vulnerabilities env uuid4 code language =
     (let vulnerabilities = pattern_detection uuid4 code
      in if ML_AVAILABLE env then
           (case get_detector env of
              Inl (Exception e) \<Rightarrow> (vulnerabilities, [''ML detection error: '' @ e])
            | Inr detector \<Rightarrow>
                (case predict detector code 0.6 of
                   (ml_predictions, printed) \<Rightarrow>
                     (ml_merge uuid4 code ml_predictions vulnerabilities, printed)))
         else (vulnerabilities, []))"

text \<open>A finding with its identifier blanked, to compare two runs field by field.\<close>

definition without_id :: "Vulnerability \<Rightarrow> Vulnerability" where
  "without_id v = v\<lparr>vuln_id := []\<rparr>"

text \<open>The three shapes of finding the pattern rules construct.\<close>

definition pattern_finding :: "Vulnerability \<Rightarrow> bool" where
  "pattern_finding v \<longleftrightarrow>
     (category v = ''SQL Injection'' \<and> severity v = ''CRITICAL'' \<and> confidence_score v = 0.75)
   \<or> (category v = ''Cross-Site Scripting (XSS)'' \<and> severity v = ''HIGH'' \<and> confidence_score v = 0.68)
   \<or> (category v = ''Hardcoded Secrets'' \<and> severity v = ''HIGH'' \<and> confidence_score v = 0.82)"

section \<open>JSON values\<close>

datatype json =
  JNull | JBool bool | JInt int | JStr string | JArr "json list" | JObj "(string \<times> json) list"

text \<open>
  \<open>message.get(key)\<close> on a decoded JSON value: \<open>None\<close> for a missing key, the last
  binding where the text repeated a key, and AttributeError when the value is no object.
\<close>

definition json_get :: "json \<Rightarrow> string \<Rightarrow> exn + json" where
  "json_get j key =
     (case j of
        JObj kvs \<Rightarrow> Inr (case map_of (rev kvs) key of Some v \<Rightarrow> v | None \<Rightarrow> JNull)
      | _ \<Rightarrow> Inl (Exception ''object has no attribute get''))"

section \<open>The worker: \<open>workers/stream_processor.py\<close>\<close>

text \<open>What a call can raise in the worker loop, which tells the two apart.\<close>

datatype raised = KeyboardInterrupt | Err exn

datatype control = Continue | Break

text \<open>
  The world the worker acts on. \<open>kv\<close> is the Result Store: a key is bound to its expiry in
  seconds and to the object whose JSON text is stored. \<open>stream\<close> holds the entries of
  \<open>code_analysis_stream\<close> in order, each an id and its fields; \<open>last_delivered\<close> counts the
  entries already delivered to the group \<open>analysis_workers\<close>, and \<open>pending\<close> lists the ids
  delivered and not yet acknowledged. \<open>faults\<close> says which of the worker's Redis commands fail:
  the \<open>n\<close>-th command raises \<open>e\<close> when \<open>faults n = Some e\<close>. \<open>clock\<close> gives the successive
  readings of \<open>datetime.utcnow().isoformat()\<close>. \<open>sleeps\<close> counts the calls of
  \<open>time.sleep(1)\<close>. Console output is not part of the model.
\<close>

type_synonym message_data = "string \<rightharpoonup> string"

record worker_state =
  kv :: "string \<rightharpoonup> nat \<times> json"
  stream :: "(string \<times> message_data) list"
  last_delivered :: nat
  pending :: "string list"
  faults :: "nat \<Rightarrow> raised option"
  commands :: nat
  clock :: "nat \<Rightarrow> string"
  clock_reads :: nat
  sleeps :: nat

text \<open>\<open>redis_client.setex(key, ttl, value)\<close>.\<close>

definition setex :: "string \<Rightarrow> nat \<Rightarrow> json \<Rightarrow> worker_state \<Rightarrow> raised option \<times> worker_state" where
  "setex key ttl val s =
     (case faults s (commands s) of
        Some e \<Rightarrow> (Some e, s\<lparr>commands := commands s + 1\<rparr>)
      | None \<Rightarrow> (None, s\<lparr>commands := commands s + 1, kv := (kv s)(key \<mapsto> (ttl, val))\<rparr>))"

text \<open>\<open>redis_client.xack('code_analysis_stream', 'analysis_workers', message_id)\<close>.\<close>

definition xack :: "string \<Rightarrow> worker_state \<Rightarrow> raised option \<times> worker_state" where
  "xack message_id s =
     (case faults s (commands s) of
        Some e \<Rightarrow> (Some e, s\<lparr>commands := commands s + 1\<rparr>)
      | None \<Rightarrow> (None, s\<lparr>commands := commands s + 1,
                         pending := removeAll message_id (pending s)\<rparr>))"

text \<open>
  \<open>redis_client.xreadgroup('analysis_workers', consumer_name, {'code_analysis_stream': '>'},
  count=10, block=1000)\<close>: up to ten entries never delivered to the group, which become
  pending; no stream is listed when there is none.
\<close>

definition xreadgroup ::
  "worker_state \<Rightarrow> (raised + (string \<times> (string \<times> message_data) list) list) \<times> worker_state" where
  "xreadgroup s =
     (case faults s (commands s) of
        Some e \<Rightarrow> (Inl e, s\<lparr>commands := commands s + 1\<rparr>)
      | None \<Rightarrow>
          (let message_list = take 10 (drop (last_delivered s) (stream s));
               s' = s\<lparr>commands := commands s + 1,
                      last_delivered := last_delivered s + length message_list,
                      pending := pending s @ map fst message_list\<rparr>
           in (Inr (if message_list = [] then [] else [(''code_analysis_stream'', message_list)]),
               s')))"

text \<open>\<open>f"{x}"\<close> for the result of \<open>dict.get\<close>, and the same value as JSON.\<close>

definition format_opt :: "string option \<Rightarrow> string" where
  "format_opt x = (case x of None \<Rightarrow> ''None'' | Some v \<Rightarrow> v)"

definition json_opt :: "string option \<Rightarrow> json" where
  "json_opt x = (case x of None \<Rightarrow> JNull | Some v \<Rightarrow> JStr v)"

text \<open>
  \<open>process_code_analysis\<close>. \<open>len(code)\<close> raises TypeError when the entry has no field
  \<open>code\<close>. The detection engine is not called.
\<close>

definition process_code_analysis :: "message_data \<Rightarrow> worker_state \<Rightarrow> raised option \<times> worker_state" where
  "process_code_analysis message_data s =
     (let code = message_data ''code'';
          language = message_data ''language'';
          file_path = message_data ''file_path''
      in case code of
           None \<Rightarrow> (Some (Err (Exception ''object of type NoneType has no len()'')), s)
         | Some c \<Rightarrow>
             (let result = JObj [(''analysis_id'', json_opt (message_data ''analysis_id'')),
                                 (''status'', JStr ''completed''),
                                 (''processed_at'', JStr (clock s (clock_reads s))),
                                 (''vulnerabilities_found'', JInt 0)];
                  s1 = s\<lparr>clock_reads := clock_reads s + 1\<rparr>
              in setex (''result:'' @ format_opt (message_data ''analysis_id'')) 3600 result s1))"

text \<open>The loop \<open>for message_id, message_data in message_list\<close>: process, then acknowledge.\<close>

fun process_entries ::
  "(string \<times> message_data) list \<Rightarrow> worker_state \<Rightarrow> raised option \<times> worker_state" where
  "process_entries [] s = (None, s)"
| "process_entries ((message_id, message_data) # message_list) s =
     (case process_code_analysis message_data s of
        (Some e, s1) \<Rightarrow> (Some e, s1)
      | (None, s1) \<Rightarrow>
          (case xack message_id s1 of
             (Some e, s2) \<Rightarrow> (Some e, s2)
           | (None, s2) \<Rightarrow> process_entries message_list s2))"

text \<open>The loop \<open>for stream_name, message_list in messages\<close>.\<close>

fun process_messages ::
  "(string \<times> (string \<times> message_data) list) list \<Rightarrow> worker_state \<Rightarrow> raised option \<times> worker_state" where
  "process_messages [] s = (None, s)"
| "process_messages ((stream_name, message_list) # messages) s =
     (case process_entries message_list s of
        (Some e, s1) \<Rightarrow> (Some e, s1)
      | (None, s1) \<Rightarrow> process_messages messages s1)"

text \<open>The two handlers of the \<open>try\<close> statement that wraps the body of \<open>while True\<close>.\<close>

definition handle_raised :: "raised \<Rightarrow> worker_state \<Rightarrow> control \<times> worker_state" where
  "handle_raised e s =
     (case e of
        KeyboardInterrupt \<Rightarrow> (Break, s)
      | Err x \<Rightarrow> (Continue, s\<lparr>sleeps := sleeps s + 1\<rparr>))"

text \<open>One pass through the body of \<open>while True\<close> in \<open>main\<close>.\<close>

definition loop_body :: "worker_state \<Rightarrow> control \<times> worker_state" where
  "loop_body s =
     (case xreadgroup s of
        (Inl e, s1) \<Rightarrow> handle_raised e s1
      | (Inr messages, s1) \<Rightarrow>
          (case process_messages messages s1 of
             (Some e, s2) \<Rightarrow> handle_raised e s2
           | (None, s2) \<Rightarrow> (Continue, s2)))"

text \<open>
  The loop \<open>while True\<close>, run for at most \<open>fuel\<close> passes: \<open>Some s\<close> when it left through
  \<open>break\<close> in state \<open>s\<close>, \<open>None\<close> when it is still running.
\<close>

fun main_loop :: "nat \<Rightarrow> worker_state \<Rightarrow> worker_state option" where
  "main_loop 0 s = None"
| "main_loop (Suc fuel) s =
     (case loop_body s of
        (Break, s') \<Rightarrow> Some s'
      | (Continue, s') \<Rightarrow> main_loop fuel s')"

section \<open>The connection manager: \<open>api/routers/websocket.py\<close>\<close>

text \<open>
  A WebSocket is an object outside the manager: a handle names it, and \<open>sockets\<close> maps the
  handle to its state, whether the transport still accepts a send and what has been sent
  on it. A Python set of sockets is a list of handles without repetition; the theorems
  hold for every order of it. Console output is not part of the model, and one call runs
  to its end before another starts.
\<close>

record WebSocket =
  ws_open :: bool
  ws_sent :: "json list"

record manager_state =
  active_connections :: "string \<rightharpoonup> nat list"
  sockets :: "nat \<Rightarrow> WebSocket"

text \<open>\<open>websocket.send_json(message)\<close>: raises on a closed transport.\<close>

definition send_json :: "json \<Rightarrow> nat \<Rightarrow> manager_state \<Rightarrow> exn option \<times> manager_state" where
  "send_json msg websocket st =
     (if ws_open (sockets st websocket)
      then (None, st\<lparr>sockets := (sockets st)
                       (websocket := (sockets st websocket)
                          \<lparr>ws_sent := ws_sent (sockets st websocket) @ [msg]\<rparr>)\<rparr>)
      else (Some (Exception ''WebSocketDisconnect''), st))"

definition set_add :: "nat \<Rightarrow> nat list \<Rightarrow> nat list" where
  "set_add x xs = (if x \<in> set xs then xs else xs @ [x])"

definition set_discard :: "nat \<Rightarrow> nat list \<Rightarrow> nat list" where
  "set_discard x xs = removeAll x xs"

text \<open>\<open>ConnectionManager.connect\<close>; \<open>websocket.accept()\<close> raises on a closed transport.\<close>

definition connect :: "nat \<Rightarrow> string \<Rightarrow> manager_state \<Rightarrow> exn option \<times> manager_state" where
  "connect websocket client_id st =
     (if ws_open (sockets st websocket)
      then (let conns = (case active_connections st client_id of None \<Rightarrow> [] | Some c \<Rightarrow> c)
            in (None, st\<lparr>active_connections :=
                          (active_connections st)(client_id \<mapsto> set_add websocket conns)\<rparr>))
      else (Some (Exception ''WebSocketDisconnect''), st))"

text \<open>\<open>ConnectionManager.disconnect\<close>.\<close>

definition disconnect :: "nat \<Rightarrow> string \<Rightarrow> manager_state \<Rightarrow> manager_state" where
  "disconnect websocket client_id st =
     (case active_connections st client_id of
        None \<Rightarrow> st
      | Some conns \<Rightarrow>
          (let conns' = set_discard websocket conns
           in if conns' = []
              then st\<lparr>active_connections := (active_connections st)(client_id := None)\<rparr>
              else st\<lparr>active_connections := (active_connections st)(client_id \<mapsto> conns')\<rparr>))"

definition send_personal_message :: "json \<Rightarrow> nat \<Rightarrow> manager_state \<Rightarrow> exn option \<times> manager_state" where
  "send_personal_message msg websocket st = send_json msg websocket st"

text \<open>
  The first loop of \<open>broadcast_to_client\<close>: send to each connection, collecting in
  \<open>disconnected\<close> those whose send raised.
\<close>

fun broadcast_sends ::
  "json \<Rightarrow> nat list \<Rightarrow> nat list \<Rightarrow> manager_state \<Rightarrow> nat list \<times> manager_state" where
  "broadcast_sends msg [] disconnected st = (disconnected, st)"
| "broadcast_sends msg (connection # connections) disconnected st =
     (case send_json msg connection st of
        (None, st') \<Rightarrow> broadcast_sends msg connections disconnected st'
      | (Some e, st') \<Rightarrow> broadcast_sends msg connections (set_add connection disconnected) st')"

text \<open>
  The second loop: discard each of them from the client's set. The key stays. The loop
  runs only under \<open>if client_id in self.active_connections\<close>, so the lookup finds the
  key; the case \<open>None\<close> is there for totality.
\<close>

fun remove_disconnected :: "string \<Rightarrow> nat list \<Rightarrow> manager_state \<Rightarrow> manager_state" where
  "remove_disconnected client_id [] st = st"
| "remove_disconnected client_id (conn # disconnected) st =
     remove_disconnected client_id disconnected
       (st\<lparr>active_connections :=
            (active_connections st)
              (client_id \<mapsto> set_discard conn
                 (case active_connections st client_id of None \<Rightarrow> [] | Some c \<Rightarrow> c))\<rparr>)"

definition broadcast_to_client :: "json \<Rightarrow> string \<Rightarrow> manager_state \<Rightarrow> manager_state" where
  "broadcast_to_client msg client_id st =
     (case active_connections st client_id of
        None \<Rightarrow> st
      | Some conns \<Rightarrow>
          (case broadcast_sends msg conns [] st of
             (disconnected, st') \<Rightarrow> remove_disconnected client_id disconnected st'))"

text \<open>No client is registered with an empty set of connections.\<close>

definition no_empty_sets :: "manager_state \<Rightarrow> bool" where
  "no_empty_sets st \<longleftrightarrow> (\<forall>client_id\<in>dom (active_connections st).
       active_connections st client_id \<noteq> Some [])"

text \<open>
  The branch of \<open>websocket_endpoint\<close> taken for one decoded message. While the handler
  waits in \<open>asyncio.sleep(0.5)\<close> the peer may close the connection: \<open>peer_closes\<close>.
\<close>

definition handle_message :: "bool \<Rightarrow> json \<Rightarrow> nat \<Rightarrow> manager_state \<Rightarrow> exn option \<times> manager_state" where
  "handle_message peer_closes msg websocket st =
     (case json_get msg ''type'' of
        Inl e \<Rightarrow> (Some e, st)
      | Inr ty \<Rightarrow>
          (if ty = JStr ''ping'' then
             (case json_get msg ''timestamp'' of
                Inl e \<Rightarrow> (Some e, st)
              | Inr ts \<Rightarrow>
                  send_personal_message
                    (JObj [(''type'', JStr ''pong''), (''timestamp'', ts)]) websocket st)
           else if ty = JStr ''analyze'' then
             (case json_get msg ''analysis_id'' of
                Inl e \<Rightarrow> (Some e, st)
              | Inr aid \<Rightarrow>
                  (case send_personal_message
                          (JObj [(''type'', JStr ''analysis_queued''),
                                 (''analysis_id'', aid),
                                 (''status'', JStr ''processing'')]) websocket st of
                     (Some e, st1) \<Rightarrow> (Some e, st1)
                   | (None, st1) \<Rightarrow>
                       (let st2 = (if peer_closes
                                   then st1\<lparr>sockets := (sockets st1)
                                          (websocket := (sockets st1 websocket)\<lparr>ws_open := False\<rparr>)\<rparr>
                                   else st1)
                        in send_personal_message
                             (JObj [(''type'', JStr ''analysis_result''),
                                    (''analysis_id'', aid),
                                    (''status'', JStr ''completed''),
                                    (''vulnerabilities'', JArr [])]) websocket st2)))
           else (None, st)))"

section \<open>Properties of the string operations\<close>

lemma starts_with_iff: "starts_with s p \<longleftrightarrow> (\<exists>ys. s = p @ ys)"
proof
  assume "starts_with s p"
  then have "s = p @ drop (length p) s"
    unfolding starts_with_def by (metis append_take_drop_id)
  then show "\<exists>ys. s = p @ ys" ..
next
  assume "\<exists>ys. s = p @ ys"
  then show "starts_with s p" by (auto simp: starts_with_def)
qed

lemma str_in_iff: "str_in p s \<longleftrightarrow> (\<exists>xs ys. s = xs @ p @ ys)"
proof (induction s)
  case Nil
  then show ?case by auto
next
  case (Cons c cs)
  show ?case
  proof
    assume "str_in p (c # cs)"
    then consider "starts_with (c # cs) p" | "str_in p cs" by auto
    then show "\<exists>xs ys. c # cs = xs @ p @ ys"
    proof cases
      case 1
      then obtain ys where "c # cs = p @ ys" by (auto simp: starts_with_iff)
      then have "c # cs = [] @ p @ ys" by simp
      then show ?thesis by blast
    next
      case 2
      then obtain xs ys where "cs = xs @ p @ ys" using Cons.IH by auto
      then have "c # cs = (c # xs) @ p @ ys" by simp
      then show ?thesis by blast
    qed
  next
    assume "\<exists>xs ys. c # cs = xs @ p @ ys"
    then obtain xs ys where e: "c # cs = xs @ p @ ys" by auto
    show "str_in p (c # cs)"
    proof (cases xs)
      case Nil
      with e have "starts_with (c # cs) p" by (auto simp: starts_with_iff)
      then show ?thesis by simp
    next
      case (Cons x xs')
      with e have "cs = xs' @ p @ ys" by simp
      then have "str_in p cs" using Cons.IH by blast
      then show ?thesis by simp
    qed
  qed
qed

lemma str_in_lower: "str_in p s \<Longrightarrow> str_in (lower p) (lower s)"
proof -
  assume "str_in p s"
  then obtain xs ys where "s = xs @ p @ ys" by (auto simp: str_in_iff)
  then have "lower s = lower xs @ lower p @ lower ys" by (simp add: lower_def)
  then show ?thesis unfolding str_in_iff by blast
qed

lemma foldl_cond_append:
  "\<exists>ys. foldl (\<lambda>vs p. if c p then vs @ [f vs p] else vs) vs ps = vs @ ys
        \<and> (\<forall>y\<in>set ys. \<exists>p\<in>set ps. \<exists>ws. c p \<and> y = f ws p)
        \<and> (\<forall>p\<in>set ps. c p \<longrightarrow> (\<exists>ws. f ws p \<in> set ys))"
proof (induction ps arbitrary: vs)
  case Nil
  then show ?case by simp
next
  case (Cons p ps)
  show ?case
  proof (cases "c p")
    case True
    from Cons.IH[of "vs @ [f vs p]"] obtain ys where
      ys: "foldl (\<lambda>vs p. if c p then vs @ [f vs p] else vs) (vs @ [f vs p]) ps = (vs @ [f vs p]) @ ys"
        "\<forall>y\<in>set ys. \<exists>p\<in>set ps. \<exists>ws. c p \<and> y = f ws p"
        "\<forall>p\<in>set ps. c p \<longrightarrow> (\<exists>ws. f ws p \<in> set ys)" by blast
    have "foldl (\<lambda>vs p. if c p then vs @ [f vs p] else vs) vs (p # ps) = vs @ (f vs p # ys)"
      using True ys(1) by simp
    moreover have "\<forall>y\<in>set (f vs p # ys). \<exists>q\<in>set (p # ps). \<exists>ws. c q \<and> y = f ws q"
      using True ys(2) by auto
    moreover have "\<forall>q\<in>set (p # ps). c q \<longrightarrow> (\<exists>ws. f ws q \<in> set (f vs p # ys))"
      using ys(3) by auto
    ultimately show ?thesis by blast
  next
    case False
    from Cons.IH[of vs] obtain ys where
      ys: "foldl (\<lambda>vs p. if c p then vs @ [f vs p] else vs) vs ps = vs @ ys"
        "\<forall>y\<in>set ys. \<exists>p\<in>set ps. \<exists>ws. c p \<and> y = f ws p"
        "\<forall>p\<in>set ps. c p \<longrightarrow> (\<exists>ws. f ws p \<in> set ys)" by blast
    have "foldl (\<lambda>vs p. if c p then vs @ [f vs p] else vs) vs (p # ps) = vs @ ys"
      using False ys(1) by simp
    moreover have "\<forall>y\<in>set ys. \<exists>q\<in>set (p # ps). \<exists>ws. c q \<and> y = f ws q"
      using ys(2) by auto
    moreover have "\<forall>q\<in>set (p # ps). c q \<longrightarrow> (\<exists>ws. f ws q \<in> set ys)"
      using False ys(3) by auto
    ultimately show ?thesis by blast
  qed
qed


lemma foldl_cond_append_all:
  assumes "\<And>ws p. P (f ws p)"
  shows "\<exists>ys. foldl (\<lambda>vs p. if c p then vs @ [f vs p] else vs) vs ps = vs @ ys
        \<and> (\<forall>y\<in>set ys. P y)"
proof -
  from foldl_cond_append[of c f vs ps] obtain ys where
    a: "foldl (\<lambda>vs p. if c p then vs @ [f vs p] else vs) vs ps = vs @ ys"
    and b: "\<forall>y\<in>set ys. \<exists>p\<in>set ps. \<exists>ws. c p \<and> y = f ws p" by blast
  have "\<forall>y\<in>set ys. P y"
  proof
    fix y assume "y \<in> set ys"
    with b obtain p ws where "y = f ws p" by blast
    then show "P y" using assms by simp
  qed
  with a show ?thesis by blast
qed

lemma check_sql_grows:
  "\<exists>ys. check_sql uuid4 n line vs = vs @ ys \<and> (\<forall>y\<in>set ys. pattern_finding y)"
  unfolding check_sql_def
  by (rule foldl_cond_append_all) (simp add: pattern_finding_def)

lemma foldl_nested_if:
  "foldl (\<lambda>vs p. if a p then (if b then vs @ [f vs p] else vs) else vs) vs ps =
   foldl (\<lambda>vs p. if a p \<and> b then vs @ [f vs p] else vs) vs ps"
  by (rule arg_cong[where f = "\<lambda>g. foldl g vs ps"]) (auto simp: fun_eq_iff)

lemma foldl_cond_append_hit:
  assumes "p \<in> set ps" and "c p"
  shows "\<exists>ws. f ws p \<in> set (foldl (\<lambda>vs p. if c p then vs @ [f vs p] else vs) vs ps)"
proof -
  from foldl_cond_append[of c f vs ps] obtain ys where
    a: "foldl (\<lambda>vs p. if c p then vs @ [f vs p] else vs) vs ps = vs @ ys"
    and b: "\<forall>p\<in>set ps. c p \<longrightarrow> (\<exists>ws. f ws p \<in> set ys)" by blast
  from b assms obtain ws where "f ws p \<in> set ys" by blast
  with a have "f ws p \<in> set (foldl (\<lambda>vs p. if c p then vs @ [f vs p] else vs) vs ps)" by simp
  then show ?thesis ..
qed

lemma check_xss_grows:
  "\<exists>ys. check_xss uuid4 n line vs = vs @ ys \<and> (\<forall>y\<in>set ys. pattern_finding y)"
  unfolding check_xss_def
  by (rule foldl_cond_append_all) (simp add: pattern_finding_def)

lemma check_secrets_grows:
  "\<exists>ys. check_secrets uuid4 n line vs = vs @ ys \<and> (\<forall>y\<in>set ys. pattern_finding y)"
  unfolding check_secrets_def foldl_nested_if
  by (rule foldl_cond_append_all) (simp add: pattern_finding_def)

lemma scan_lines_grows:
  "\<exists>ys. scan_lines uuid4 n lines vs = vs @ ys \<and> (\<forall>y\<in>set ys. pattern_finding y)"
proof (induction lines arbitrary: n vs)
  case Nil
  then show ?case by simp
next
  case (Cons line lines)
  obtain a where a: "check_sql uuid4 n line vs = vs @ a" "\<forall>y\<in>set a. pattern_finding y"
    using check_sql_grows by blast
  obtain b where b: "check_xss uuid4 n line (vs @ a) = (vs @ a) @ b" "\<forall>y\<in>set b. pattern_finding y"
    using check_xss_grows by blast
  obtain c where c: "check_secrets uuid4 n line ((vs @ a) @ b) = ((vs @ a) @ b) @ c"
    "\<forall>y\<in>set c. pattern_finding y"
    using check_secrets_grows by blast
  obtain d where d: "scan_lines uuid4 (n + 1) lines (((vs @ a) @ b) @ c) = (((vs @ a) @ b) @ c) @ d"
    "\<forall>y\<in>set d. pattern_finding y"
    using Cons.IH by blast
  have "scan_lines uuid4 n (line # lines) vs = vs @ (a @ b @ c @ d)"
    using a(1) b(1) c(1) d(1) by simp
  moreover have "\<forall>y\<in>set (a @ b @ c @ d). pattern_finding y"
    using a(2) b(2) c(2) d(2) by auto
  ultimately show ?case by blast
qed

lemma check_sql_hit:
  assumes "p \<in> set sql_patterns" and "str_in (lower p) (lower line)" and "CHR ''+'' \<in> set line"
  shows "\<exists>v\<in>set (check_sql uuid4 n line vs).
           category v = ''SQL Injection'' \<and> severity v = ''CRITICAL'' \<and> line_number v = n \<and>
           column_number v = str_find line p \<and> confidence_score v = 0.75"
proof -
  let ?f = "\<lambda>(ws::Vulnerability list) p. \<lparr>vuln_id = uuid4 (length ws),
                    category = ''SQL Injection'',
                    severity = ''CRITICAL'',
                    line_number = n,
                    column_number = str_find line p,
                    message = ''Possible SQL injection: String concatenation in SQL query'',
                    code_snippet = strip line,
                    confidence_score = 0.75\<rparr>"
  let ?c = "\<lambda>p. str_in (lower p) (lower line) \<and> CHR ''+'' \<in> set line"
  have "?c p" using assms by simp
  from foldl_cond_append_hit[of p sql_patterns ?c ?f vs, OF assms(1) this]
  have "\<exists>ws. ?f ws p \<in> set (check_sql uuid4 n line vs)"
    unfolding check_sql_def .
  then obtain ws where "?f ws p \<in> set (check_sql uuid4 n line vs)" ..
  then show ?thesis by (intro bexI[where x = "?f ws p"]) simp_all
qed

lemma check_xss_mono: "set vs \<subseteq> set (check_xss uuid4 n line vs)"
  using check_xss_grows[of uuid4 n line vs] by auto

lemma check_secrets_mono: "set vs \<subseteq> set (check_secrets uuid4 n line vs)"
  using check_secrets_grows[of uuid4 n line vs] by auto

lemma scan_lines_mono: "set vs \<subseteq> set (scan_lines uuid4 n lines vs)"
  using scan_lines_grows[of uuid4 n lines vs] by auto

lemma scan_lines_hit:
  assumes "i < length lines"
    and "\<And>ws. \<exists>v\<in>set (check_sql uuid4 (n + int i) (lines ! i) ws). P v"
  shows "\<exists>v\<in>set (scan_lines uuid4 n lines vs). P v"
  using assms
proof (induction lines arbitrary: i n vs)
  case Nil
  then show ?case by simp
next
  case (Cons line lines)
  show ?case
  proof (cases i)
    case 0
    with Cons.prems(2)[of vs] obtain v where
      v: "v \<in> set (check_sql uuid4 n line vs)" "P v" by auto
    have "v \<in> set (scan_lines uuid4 n (line # lines) vs)"
      using v(1) check_xss_mono check_secrets_mono scan_lines_mono
      by (simp add: subset_iff)
    with v(2) show ?thesis by blast
  next
    case (Suc j)
    have j: "j < length lines" using Cons.prems(1) Suc by simp
    have "\<And>ws. \<exists>v\<in>set (check_sql uuid4 ((n + 1) + int j) (lines ! j) ws). P v"
    proof -
      fix ws
      have e1: "n + int i = n + 1 + int j" using Suc by simp
      have e2: "(line # lines) ! i = lines ! j" using Suc by simp
      from Cons.prems(2)[of ws]
      show "\<exists>v\<in>set (check_sql uuid4 ((n + 1) + int j) (lines ! j) ws). P v"
        by (simp only: e1 e2)
    qed
    from Cons.IH[OF j this] show ?thesis by simp
  qed
qed

lemma ml_merge_grows:
  "\<exists>ys. ml_merge uuid4 code preds vs = vs @ ys \<and>
        (\<forall>y\<in>set ys. category y \<notin> category ` set vs \<and> line_number y = 1 \<and> column_number y = 0 \<and>
           (\<exists>p\<in>set preds. category y = p_category p \<and> severity y = p_severity p \<and>
                           confidence_score y = p_confidence p))"
proof (induction preds arbitrary: vs)
  case Nil
  then show ?case by simp
next
  case (Cons pred preds)
  show ?case
  proof (cases "list_ex (\<lambda>v. category v = p_category pred) vs")
    case True
    from Cons.IH[of vs] obtain ys where
      ys: "ml_merge uuid4 code preds vs = vs @ ys"
          "\<forall>y\<in>set ys. category y \<notin> category ` set vs \<and> line_number y = 1 \<and> column_number y = 0 \<and>
           (\<exists>p\<in>set preds. category y = p_category p \<and> severity y = p_severity p \<and>
                           confidence_score y = p_confidence p)" by blast
    have "ml_merge uuid4 code (pred # preds) vs = vs @ ys" using True ys(1) by simp
    moreover have "\<forall>y\<in>set ys. category y \<notin> category ` set vs \<and> line_number y = 1 \<and> column_number y = 0 \<and>
           (\<exists>p\<in>set (pred # preds). category y = p_category p \<and> severity y = p_severity p \<and>
                           confidence_score y = p_confidence p)"
      using ys(2) by auto
    ultimately show ?thesis by blast
  next
    case False
    define new where "new = \<lparr>vuln_id = uuid4 (length vs),
                 category = p_category pred,
                 severity = p_severity pred,
                 line_number = 1,
                 column_number = 0,
                 message = ''ML Model detected '' @ p_category pred @ '' (confidence: '' @
                           format_percent (p_confidence pred) @ '')'',
                 code_snippet = (if 100 < length code then take 100 code @ ''...'' else code),
                 confidence_score = p_confidence pred\<rparr>"
    have new: "category new = p_category pred" "severity new = p_severity pred"
      "confidence_score new = p_confidence pred" "line_number new = 1" "column_number new = 0"
      by (simp_all add: new_def)
    from Cons.IH[of "vs @ [new]"] obtain ys where
      ys: "ml_merge uuid4 code preds (vs @ [new]) = (vs @ [new]) @ ys"
          "\<forall>y\<in>set ys. category y \<notin> category ` set (vs @ [new]) \<and> line_number y = 1 \<and> column_number y = 0 \<and>
           (\<exists>p\<in>set preds. category y = p_category p \<and> severity y = p_severity p \<and>
                           confidence_score y = p_confidence p)" by blast
    have "ml_merge uuid4 code (pred # preds) vs = vs @ (new # ys)"
      using False ys(1) by (simp add: new_def)
    moreover have "category new \<notin> category ` set vs"
      using False new(1) by (auto simp: list_ex_iff)
    moreover have "\<forall>y\<in>set ys. category y \<notin> category ` set vs \<and> line_number y = 1 \<and> column_number y = 0 \<and>
           (\<exists>p\<in>set (pred # preds). category y = p_category p \<and> severity y = p_severity p \<and>
                           confidence_score y = p_confidence p)"
      using ys(2) by auto
    ultimately have "ml_merge uuid4 code (pred # preds) vs = vs @ (new # ys) \<and>
       (\<forall>y\<in>set (new # ys). category y \<notin> category ` set vs \<and> line_number y = 1 \<and> column_number y = 0 \<and>
           (\<exists>p\<in>set (pred # preds). category y = p_category p \<and> severity y = p_severity p \<and>
                           confidence_score y = p_confidence p))"
      using new by simp
    then show ?thesis by blast
  qed
qed

section \<open>Properties of the detection engine\<close>

lemma detect_extends_patterns:
  "\<exists>ms. fst (detect_simple_vulnerabilities env uuid4 code language) = pattern_detection uuid4 code @ ms
      \<and> (\<forall>m\<in>set ms. category m \<notin> category ` set (pattern_detection uuid4 code)
            \<and> line_number m = 1 \<and> column_number m = 0)"
proof (cases "ML_AVAILABLE env")
  case False
  then show ?thesis by (simp add: detect_simple_vulnerabilities_def)
next
  case True
  show ?thesis
  proof (cases "get_detector env")
    case (Inl e)
    then show ?thesis using True
      by (cases e) (simp add: detect_simple_vulnerabilities_def)
  next
    case (Inr detector)
    obtain preds printed where p: "predict detector code 0.6 = (preds, printed)"
      by (cases "predict detector code 0.6")
    from ml_merge_grows[of uuid4 code preds "pattern_detection uuid4 code"]
    obtain ys where ys: "ml_merge uuid4 code preds (pattern_detection uuid4 code) = pattern_detection uuid4 code @ ys"
      "\<forall>y\<in>set ys. category y \<notin> category ` set (pattern_detection uuid4 code) \<and> line_number y = 1 \<and> column_number y = 0"
      by blast
    have "fst (detect_simple_vulnerabilities env uuid4 code language) = pattern_detection uuid4 code @ ys"
      using True Inr p ys(1) by (simp add: detect_simple_vulnerabilities_def)
    with ys(2) show ?thesis by blast
  qed
qed

text \<open>
  Claim C1. When the classifier returns a prediction whose category is the category of a
  finding the pattern rules produced for the same input, the result of
  \<open>detect_simple_vulnerabilities\<close> is the list of pattern findings followed by model
  findings whose categories occur in no pattern finding; the findings of that category in
  the result are exactly those the pattern rules produced.
\<close>

theorem detect_pattern_precedence:
  assumes "ML_AVAILABLE env"
    and "get_detector env = Inr detector"
    and "pred \<in> set (fst (predict detector code 0.6))"
    and "v \<in> set (pattern_detection uuid4 code)"
    and "category v = p_category pred"
  shows "(\<exists>ms. fst (detect_simple_vulnerabilities env uuid4 code language) =
                pattern_detection uuid4 code @ ms
              \<and> (\<forall>m\<in>set ms. category m \<notin> category ` set (pattern_detection uuid4 code)))
       \<and> filter (\<lambda>w. category w = p_category pred)
            (fst (detect_simple_vulnerabilities env uuid4 code language)) =
          filter (\<lambda>w. category w = p_category pred) (pattern_detection uuid4 code)"
proof -
  from detect_extends_patterns[of env uuid4 code language] obtain ms where
    ms: "fst (detect_simple_vulnerabilities env uuid4 code language) = pattern_detection uuid4 code @ ms"
        "\<forall>m\<in>set ms. category m \<notin> category ` set (pattern_detection uuid4 code)" by blast
  have "p_category pred \<in> category ` set (pattern_detection uuid4 code)"
    using assms(4,5) by force
  with ms(2) have "\<forall>m\<in>set ms. category m \<noteq> p_category pred" by metis
  then have "filter (\<lambda>w. category w = p_category pred) ms = []" by (simp add: filter_empty_conv)
  with ms show ?thesis by auto
qed

text \<open>
  Claim C5. When line \<open>k\<close> of the input (counted from 1) contains one of the query markers
  and the character \<open>+\<close>, the result has a finding of category SQL Injection, severity
  CRITICAL, line number \<open>k\<close> and confidence 0.75.
\<close>

theorem detect_sql_injection_finding:
  assumes "1 \<le> k" and "k \<le> length (split_nl code)"
    and "pattern \<in> set sql_patterns"
    and "str_in pattern (split_nl code ! (k - 1))"
    and "CHR ''+'' \<in> set (split_nl code ! (k - 1))"
  shows "\<exists>v\<in>set (fst (detect_simple_vulnerabilities env uuid4 code language)).
           category v = ''SQL Injection'' \<and> severity v = ''CRITICAL'' \<and>
           line_number v = int k \<and> confidence_score v = 0.75"
proof -
  let ?P = "\<lambda>v. category v = ''SQL Injection'' \<and> severity v = ''CRITICAL'' \<and>
           line_number v = int k \<and> confidence_score v = 0.75"
  have i: "k - 1 < length (split_nl code)" using assms(1,2) by simp
  have n: "1 + int (k - 1) = int k" using assms(1) by simp
  have low: "str_in (lower pattern) (lower (split_nl code ! (k - 1)))"
    using assms(4) by (rule str_in_lower)
  have "\<And>ws. \<exists>v\<in>set (check_sql uuid4 (1 + int (k - 1)) (split_nl code ! (k - 1)) ws). ?P v"
  proof -
    fix ws
    from check_sql_hit[OF assms(3) low assms(5), of uuid4 "1 + int (k - 1)" ws]
    show "\<exists>v\<in>set (check_sql uuid4 (1 + int (k - 1)) (split_nl code ! (k - 1)) ws). ?P v"
      unfolding n by blast
  qed
  from scan_lines_hit[of "k - 1" "split_nl code" uuid4 1 ?P "[]", OF i this]
  obtain v where v: "v \<in> set (pattern_detection uuid4 code)" "?P v"
    unfolding pattern_detection_def by blast
  from detect_extends_patterns[of env uuid4 code language]
  have "set (pattern_detection uuid4 code) \<subseteq> set (fst (detect_simple_vulnerabilities env uuid4 code language))"
    by auto
  with v show ?thesis by blast
qed

text \<open>
  Claim C6. When the classifier is unavailable (the module did not load, or the detector
  holds no model or no tokenizer), or asking it raises (in \<open>get_detector\<close>, in the tokenizer,
  in the network, or in reading a label), \<open>detect_simple_vulnerabilities\<close> returns exactly
  the pattern findings; an error raised is printed and not propagated.
\<close>

theorem detect_degrades_to_patterns:
  "(\<not> ML_AVAILABLE env \<longrightarrow>
      detect_simple_vulnerabilities env uuid4 code language = (pattern_detection uuid4 code, []))
 \<and> (ML_AVAILABLE env \<and> get_detector env = Inl (Exception e) \<longrightarrow>
      detect_simple_vulnerabilities env uuid4 code language =
        (pattern_detection uuid4 code, [''ML detection error: '' @ e]))
 \<and> (ML_AVAILABLE env \<and> get_detector env = Inr d \<and> (model d = None \<or> tokenizer d = None) \<longrightarrow>
      detect_simple_vulnerabilities env uuid4 code language = (pattern_detection uuid4 code, []))
 \<and> (ML_AVAILABLE env \<and> get_detector env = Inr d \<and> tokenizer d = Some t \<and> model d = Some m \<and>
      t code = Inl (Exception e) \<longrightarrow>
      detect_simple_vulnerabilities env uuid4 code language =
        (pattern_detection uuid4 code, [''Error in ML prediction: '' @ e]))
 \<and> (ML_AVAILABLE env \<and> get_detector env = Inr d \<and> tokenizer d = Some t \<and> model d = Some m \<and>
      t code = Inr inputs \<and> m inputs = Inl (Exception e) \<longrightarrow>
      detect_simple_vulnerabilities env uuid4 code language =
        (pattern_detection uuid4 code, [''Error in ML prediction: '' @ e]))
 \<and> (ML_AVAILABLE env \<and> get_detector env = Inr d \<and> tokenizer d = Some t \<and> model d = Some m \<and>
      t code = Inr inputs \<and> m inputs = Inr logits \<and>
      extract_results 0.6 0 (map sigmoid logits) [] = Inl (Exception e) \<longrightarrow>
      detect_simple_vulnerabilities env uuid4 code language =
        (pattern_detection uuid4 code, [''Error in ML prediction: '' @ e]))"
  by (auto simp: detect_simple_vulnerabilities_def predict_def split: option.splits)

lemma sigmoid_ln_9: "sigmoid (ln 9) = 9 / 10"
  by (simp add: sigmoid_def exp_minus)

lemma sigmoid_0: "sigmoid 0 = 1 / 2"
  by (simp add: sigmoid_def)

text \<open>
  Claim C1 at a concrete input: the pattern rules and the classifier (confidence 0.9) both
  report SQL Injection for \<open>execute(a + b)\<close>.
\<close>

theorem detect_pattern_precedence_witness:
  "filter (\<lambda>w. category w = ''SQL Injection'')
     (fst (detect_simple_vulnerabilities
        \<lparr>ML_AVAILABLE = True,
         get_detector = Inr \<lparr>tokenizer = Some (\<lambda>c. Inr []),
                              model = Some (\<lambda>i. Inr [ln 9, 0, 0, 0, 0, 0, 0, 0, 0, 0])\<rparr>\<rparr>
        (\<lambda>k. ''id'') ''execute(a + b)'' ''python'')) =
   filter (\<lambda>w. category w = ''SQL Injection'') (pattern_detection (\<lambda>k. ''id'') ''execute(a + b)'')
   \<and> map category (pattern_detection (\<lambda>k. ''id'') ''execute(a + b)'') = [''SQL Injection'']"
proof -
  let ?d = "\<lparr>tokenizer = Some (\<lambda>c. Inr []),
             model = Some (\<lambda>i. Inr [ln 9, 0, 0, 0, 0, 0, 0, 0, 0, 0])\<rparr>"
  let ?env = "\<lparr>ML_AVAILABLE = True, get_detector = Inr ?d\<rparr>"
  let ?pred = "\<lparr>p_category = ''SQL Injection'', p_confidence = 9 / 10,
                p_severity = ''CRITICAL'', p_source = ''ml_model''\<rparr>"
  let ?u = "\<lambda>k::nat. ''id''"
  have h1: "ML_AVAILABLE ?env" by simp
  have h2: "get_detector ?env = Inr ?d" by simp
  have h3: "?pred \<in> set (fst (predict ?d ''execute(a + b)'' 0.6))"
    by (simp add: predict_def sigmoid_ln_9 sigmoid_0 vulnerability_labels_def get_severity_def)
  have c: "map category (pattern_detection ?u ''execute(a + b)'') = [''SQL Injection'']"
    by code_simp
  then have ne: "pattern_detection ?u ''execute(a + b)'' \<noteq> []" by auto
  have h4: "hd (pattern_detection ?u ''execute(a + b)'') \<in> set (pattern_detection ?u ''execute(a + b)'')"
    using ne by simp
  have h5: "category (hd (pattern_detection ?u ''execute(a + b)'')) = p_category ?pred"
    using c ne by (cases "pattern_detection ?u ''execute(a + b)''") simp_all
  from detect_pattern_precedence[OF h1 h2 h3 h4 h5, of "''python''"] c
  show ?thesis by simp
qed

text \<open>
  Claim C5 at a concrete input: the marker is on the second line.
\<close>

theorem detect_sql_injection_finding_witness:
  "\<exists>v\<in>set (fst (detect_simple_vulnerabilities
        \<lparr>ML_AVAILABLE = False, get_detector = Inl (Exception ''unavailable'')\<rparr>
        (\<lambda>k. ''id'') (''x = 1'' @ [CHR 0x0A] @ ''db.execute(a + b)'') ''python'')).
           category v = ''SQL Injection'' \<and> severity v = ''CRITICAL'' \<and>
           line_number v = 2 \<and> confidence_score v = 0.75"
proof -
  let ?code = "''x = 1'' @ [CHR 0x0A] @ ''db.execute(a + b)''"
  have l: "split_nl ?code = [''x = 1'', ''db.execute(a + b)'']" by simp
  have h1: "1 \<le> (2::nat)" by simp
  have h2: "2 \<le> length (split_nl ?code)" unfolding l by simp
  have h3: "''execute('' \<in> set sql_patterns" by (simp add: sql_patterns_def)
  have h4: "str_in ''execute('' (split_nl ?code ! (2 - 1))"
    unfolding l by (simp add: starts_with_def)
  have h5: "CHR ''+'' \<in> set (split_nl ?code ! (2 - 1))" unfolding l by simp
  from detect_sql_injection_finding[OF h1 h2 h3 h4 h5]
  show ?thesis by simp
qed

text \<open>
  Claim C6 at concrete inputs, one for each way the classifier can fail.
\<close>

theorem detect_degrades_to_patterns_witness:
  "detect_simple_vulnerabilities
     \<lparr>ML_AVAILABLE = False, get_detector = Inl (Exception ''not loaded'')\<rparr>
     (\<lambda>k. ''id'') ''eval(x)'' ''javascript'' = (pattern_detection (\<lambda>k. ''id'') ''eval(x)'', [])
 \<and> detect_simple_vulnerabilities
     \<lparr>ML_AVAILABLE = True, get_detector = Inl (Exception ''out of memory'')\<rparr>
     (\<lambda>k. ''id'') ''eval(x)'' ''javascript'' =
       (pattern_detection (\<lambda>k. ''id'') ''eval(x)'', [''ML detection error: out of memory''])
 \<and> detect_simple_vulnerabilities
     \<lparr>ML_AVAILABLE = True, get_detector = Inr \<lparr>tokenizer = None, model = None\<rparr>\<rparr>
     (\<lambda>k. ''id'') ''eval(x)'' ''javascript'' = (pattern_detection (\<lambda>k. ''id'') ''eval(x)'', [])
 \<and> detect_simple_vulnerabilities
     \<lparr>ML_AVAILABLE = True,
      get_detector = Inr \<lparr>tokenizer = Some (\<lambda>c. Inl (Exception ''bad input'')),
                           model = Some (\<lambda>i. Inr [])\<rparr>\<rparr>
     (\<lambda>k. ''id'') ''eval(x)'' ''javascript'' =
       (pattern_detection (\<lambda>k. ''id'') ''eval(x)'', [''Error in ML prediction: bad input''])
 \<and> detect_simple_vulnerabilities
     \<lparr>ML_AVAILABLE = True,
      get_detector = Inr \<lparr>tokenizer = Some (\<lambda>c. Inr [7]),
                           model = Some (\<lambda>i. Inl (Exception ''timeout''))\<rparr>\<rparr>
     (\<lambda>k. ''id'') ''eval(x)'' ''javascript'' =
       (pattern_detection (\<lambda>k. ''id'') ''eval(x)'', [''Error in ML prediction: timeout''])
 \<and> detect_simple_vulnerabilities
     \<lparr>ML_AVAILABLE = True,
      get_detector = Inr \<lparr>tokenizer = Some (\<lambda>c. Inr [7]),
                           model = Some (\<lambda>i. Inr [0, 0, 0, 0, 0, 0, 0, 0, 0, 0, ln 9])\<rparr>\<rparr>
     (\<lambda>k. ''id'') ''eval(x)'' ''javascript'' =
       (pattern_detection (\<lambda>k. ''id'') ''eval(x)'',
        [''Error in ML prediction: list index out of range''])"
proof -
  let ?u = "\<lambda>k::nat. ''id''"
  let ?t = "\<lambda>c::string. (Inr [7] :: exn + nat list)"
  let ?tb = "\<lambda>c::string. (Inl (Exception ''bad input'') :: exn + nat list)"
  let ?m0 = "\<lambda>i::nat list. (Inr [] :: exn + real list)"
  let ?mt = "\<lambda>i::nat list. (Inl (Exception ''timeout'') :: exn + real list)"
  let ?logits = "[0, 0, 0, 0, 0, 0, 0, 0, 0, 0, ln 9] :: real list"
  let ?ml = "\<lambda>i::nat list. (Inr ?logits :: exn + real list)"
  have x: "extract_results 0.6 0 (map sigmoid ?logits) [] = Inl (Exception ''list index out of range'')"
    by (simp add: sigmoid_ln_9 sigmoid_0 vulnerability_labels_def)
  have a: "detect_simple_vulnerabilities
     \<lparr>ML_AVAILABLE = False, get_detector = Inl (Exception ''not loaded'')\<rparr>
     ?u ''eval(x)'' ''javascript'' = (pattern_detection ?u ''eval(x)'', [])"
    using detect_degrades_to_patterns
      [of "\<lparr>ML_AVAILABLE = False, get_detector = Inl (Exception ''not loaded'')\<rparr>"
          ?u "''eval(x)''" "''javascript''"]
    by simp
  have b: "detect_simple_vulnerabilities
     \<lparr>ML_AVAILABLE = True, get_detector = Inl (Exception ''out of memory'')\<rparr>
     ?u ''eval(x)'' ''javascript'' =
       (pattern_detection ?u ''eval(x)'', [''ML detection error: out of memory''])"
    using detect_degrades_to_patterns
      [of "\<lparr>ML_AVAILABLE = True, get_detector = Inl (Exception ''out of memory'')\<rparr>"
          ?u "''eval(x)''" "''javascript''" "''out of memory''"]
    by simp
  have c: "detect_simple_vulnerabilities
     \<lparr>ML_AVAILABLE = True, get_detector = Inr \<lparr>tokenizer = None, model = None\<rparr>\<rparr>
     ?u ''eval(x)'' ''javascript'' = (pattern_detection ?u ''eval(x)'', [])"
    using detect_degrades_to_patterns
      [of "\<lparr>ML_AVAILABLE = True, get_detector = Inr \<lparr>tokenizer = None, model = None\<rparr>\<rparr>"
          ?u "''eval(x)''" "''javascript''" _ "\<lparr>tokenizer = None, model = None\<rparr>"]
    by simp
  have d: "detect_simple_vulnerabilities
     \<lparr>ML_AVAILABLE = True, get_detector = Inr \<lparr>tokenizer = Some ?tb, model = Some ?m0\<rparr>\<rparr>
     ?u ''eval(x)'' ''javascript'' =
       (pattern_detection ?u ''eval(x)'', [''Error in ML prediction: bad input''])"
    using detect_degrades_to_patterns
      [of "\<lparr>ML_AVAILABLE = True, get_detector = Inr \<lparr>tokenizer = Some ?tb, model = Some ?m0\<rparr>\<rparr>"
          ?u "''eval(x)''" "''javascript''" "''bad input''"
          "\<lparr>tokenizer = Some ?tb, model = Some ?m0\<rparr>" ?tb ?m0]
    by simp
  have e: "detect_simple_vulnerabilities
     \<lparr>ML_AVAILABLE = True, get_detector = Inr \<lparr>tokenizer = Some ?t, model = Some ?mt\<rparr>\<rparr>
     ?u ''eval(x)'' ''javascript'' =
       (pattern_detection ?u ''eval(x)'', [''Error in ML prediction: timeout''])"
    using detect_degrades_to_patterns
      [of "\<lparr>ML_AVAILABLE = True, get_detector = Inr \<lparr>tokenizer = Some ?t, model = Some ?mt\<rparr>\<rparr>"
          ?u "''eval(x)''" "''javascript''" "''timeout''"
          "\<lparr>tokenizer = Some ?t, model = Some ?mt\<rparr>" ?t ?mt "[7]"]
    by simp
  have f: "detect_simple_vulnerabilities
     \<lparr>ML_AVAILABLE = True, get_detector = Inr \<lparr>tokenizer = Some ?t, model = Some ?ml\<rparr>\<rparr>
     ?u ''eval(x)'' ''javascript'' =
       (pattern_detection ?u ''eval(x)'', [''Error in ML prediction: list index out of range''])"
    using detect_degrades_to_patterns
      [of "\<lparr>ML_AVAILABLE = True, get_detector = Inr \<lparr>tokenizer = Some ?t, model = Some ?ml\<rparr>\<rparr>"
          ?u "''eval(x)''" "''javascript''" "''list index out of range''"
          "\<lparr>tokenizer = Some ?t, model = Some ?ml\<rparr>" ?t ?ml "[7]" ?logits] x
    by simp
  from a b c d e f show ?thesis by (intro conjI)
qed

lemma foldl_cond_append_cong:
  assumes "map g vs1 = map g vs2" and "\<And>a b p. g (f1 a p) = g (f2 b p)"
  shows "map g (foldl (\<lambda>vs p. if c p then vs @ [f1 vs p] else vs) vs1 ps) =
         map g (foldl (\<lambda>vs p. if c p then vs @ [f2 vs p] else vs) vs2 ps)"
  using assms(1)
proof (induction ps arbitrary: vs1 vs2)
  case Nil
  then show ?case by simp
next
  case (Cons p ps)
  show ?case
  proof (cases "c p")
    case True
    have "map g (vs1 @ [f1 vs1 p]) = map g (vs2 @ [f2 vs2 p])"
      using Cons.prems assms(2)[of vs1 p vs2] by simp
    from Cons.IH[OF this] show ?thesis using True by simp
  next
    case False
    from Cons.IH[OF Cons.prems] show ?thesis using False by simp
  qed
qed

lemma check_sql_without_id:
  "map without_id vs1 = map without_id vs2 \<Longrightarrow>
   map without_id (check_sql u1 n line vs1) = map without_id (check_sql u2 n line vs2)"
  unfolding check_sql_def
  by (rule foldl_cond_append_cong) (simp_all add: without_id_def)

lemma check_xss_without_id:
  "map without_id vs1 = map without_id vs2 \<Longrightarrow>
   map without_id (check_xss u1 n line vs1) = map without_id (check_xss u2 n line vs2)"
  unfolding check_xss_def
  by (rule foldl_cond_append_cong) (simp_all add: without_id_def)

lemma check_secrets_without_id:
  "map without_id vs1 = map without_id vs2 \<Longrightarrow>
   map without_id (check_secrets u1 n line vs1) = map without_id (check_secrets u2 n line vs2)"
  unfolding check_secrets_def foldl_nested_if
  by (rule foldl_cond_append_cong) (simp_all add: without_id_def)

lemma scan_lines_without_id:
  "map without_id vs1 = map without_id vs2 \<Longrightarrow>
   map without_id (scan_lines u1 n lines vs1) = map without_id (scan_lines u2 n lines vs2)"
proof (induction lines arbitrary: n vs1 vs2)
  case Nil
  then show ?case by simp
next
  case (Cons line lines)
  have "map without_id (check_secrets u1 n line (check_xss u1 n line (check_sql u1 n line vs1))) =
        map without_id (check_secrets u2 n line (check_xss u2 n line (check_sql u2 n line vs2)))"
    by (intro check_secrets_without_id check_xss_without_id check_sql_without_id Cons.prems)
  from Cons.IH[OF this] show ?case by simp
qed

lemma category_without_id: "category (without_id v) = category v"
  by (simp add: without_id_def)

lemma without_id_categories:
  assumes "map without_id vs1 = map without_id vs2"
  shows "map category vs1 = map category vs2"
proof -
  have "map category (map without_id vs1) = map category (map without_id vs2)"
    using assms by simp
  then show ?thesis by (simp add: o_def category_without_id)
qed

lemma ml_merge_without_id:
  "map without_id vs1 = map without_id vs2 \<Longrightarrow>
   map without_id (ml_merge u1 code preds vs1) = map without_id (ml_merge u2 code preds vs2)"
proof (induction preds arbitrary: vs1 vs2)
  case Nil
  then show ?case by simp
next
  case (Cons pred preds)
  have c: "map category vs1 = map category vs2"
    using Cons.prems by (rule without_id_categories)
  have "list_ex (\<lambda>v. category v = p_category pred) vs1 \<longleftrightarrow> p_category pred \<in> set (map category vs1)"
    by (force simp: list_ex_iff)
  moreover have "list_ex (\<lambda>v. category v = p_category pred) vs2 \<longleftrightarrow> p_category pred \<in> set (map category vs2)"
    by (force simp: list_ex_iff)
  ultimately have d: "list_ex (\<lambda>v. category v = p_category pred) vs1 =
                      list_ex (\<lambda>v. category v = p_category pred) vs2"
    using c by simp
  show ?case
  proof (cases "list_ex (\<lambda>v. category v = p_category pred) vs1")
    case True
    with d have "list_ex (\<lambda>v. category v = p_category pred) vs2" by simp
    with True Cons.IH[OF Cons.prems] show ?thesis by simp
  next
    case False
    with d have f2: "\<not> list_ex (\<lambda>v. category v = p_category pred) vs2" by simp
    let ?new = "\<lambda>u (vs::Vulnerability list). \<lparr>vuln_id = u (length vs),
                 category = p_category pred,
                 severity = p_severity pred,
                 line_number = 1,
                 column_number = 0,
                 message = ''ML Model detected '' @ p_category pred @ '' (confidence: '' @
                           format_percent (p_confidence pred) @ '')'',
                 code_snippet = (if 100 < length code then take 100 code @ ''...'' else code),
                 confidence_score = p_confidence pred\<rparr>"
    have "without_id (?new u1 vs1) = without_id (?new u2 vs2)"
      by (simp add: without_id_def)
    then have "map without_id (vs1 @ [?new u1 vs1]) = map without_id (vs2 @ [?new u2 vs2])"
      using Cons.prems by simp
    from Cons.IH[OF this] show ?thesis using False f2 by simp
  qed
qed

text \<open>
  Claim C4, amended. Two runs of \<open>detect_simple_vulnerabilities\<close> on the same code and
  language with the same classifier give the same findings in the same order, equal in
  every field but the identifier, and print the same lines, whatever identifiers
  \<open>uuid4\<close> draws in each run.
\<close>

theorem detect_deterministic_up_to_id:
  "map without_id (fst (detect_simple_vulnerabilities env u1 code language)) =
   map without_id (fst (detect_simple_vulnerabilities env u2 code language))
   \<and> snd (detect_simple_vulnerabilities env u1 code language) =
     snd (detect_simple_vulnerabilities env u2 code language)"
proof -
  have p: "map without_id (pattern_detection u1 code) = map without_id (pattern_detection u2 code)"
    unfolding pattern_detection_def by (rule scan_lines_without_id) simp
  show ?thesis
  proof (cases "ML_AVAILABLE env")
    case False
    then show ?thesis using p by (simp add: detect_simple_vulnerabilities_def)
  next
    case True
    show ?thesis
    proof (cases "get_detector env")
      case (Inl e)
      then show ?thesis using True p by (cases e) (simp add: detect_simple_vulnerabilities_def)
    next
      case (Inr detector)
      obtain preds printed where q: "predict detector code 0.6 = (preds, printed)"
        by (cases "predict detector code 0.6")
      from ml_merge_without_id[OF p, where code = code and preds = preds]
      show ?thesis using True Inr q by (simp add: detect_simple_vulnerabilities_def)
    qed
  qed
qed

text \<open>
  Claim C4 as stated fails: the identifier of a finding is a fresh random UUID, so two runs
  on the same input that draw different identifiers return different lists.
\<close>

theorem detect_ids_differ_between_runs:
  "detect_simple_vulnerabilities
     \<lparr>ML_AVAILABLE = False, get_detector = Inl (Exception ''not loaded'')\<rparr>
     (\<lambda>k. ''3f2b8c1e-5d4a-4e6f-9a7b-0c1d2e3f4a5b'') ''eval(x)'' ''javascript'' \<noteq>
   detect_simple_vulnerabilities
     \<lparr>ML_AVAILABLE = False, get_detector = Inl (Exception ''not loaded'')\<rparr>
     (\<lambda>k. ''9d8c7b6a-1f2e-4d3c-8b4a-5f6e7d8c9b0a'') ''eval(x)'' ''javascript''"
proof -
  have a: "map vuln_id (pattern_detection (\<lambda>k. ''3f2b8c1e-5d4a-4e6f-9a7b-0c1d2e3f4a5b'') ''eval(x)'') =
     [''3f2b8c1e-5d4a-4e6f-9a7b-0c1d2e3f4a5b'']"
    by code_simp
  have b: "map vuln_id (pattern_detection (\<lambda>k. ''9d8c7b6a-1f2e-4d3c-8b4a-5f6e7d8c9b0a'') ''eval(x)'') =
     [''9d8c7b6a-1f2e-4d3c-8b4a-5f6e7d8c9b0a'']"
    by code_simp
  show ?thesis
  proof
    assume "detect_simple_vulnerabilities
     \<lparr>ML_AVAILABLE = False, get_detector = Inl (Exception ''not loaded'')\<rparr>
     (\<lambda>k. ''3f2b8c1e-5d4a-4e6f-9a7b-0c1d2e3f4a5b'') ''eval(x)'' ''javascript'' =
   detect_simple_vulnerabilities
     \<lparr>ML_AVAILABLE = False, get_detector = Inl (Exception ''not loaded'')\<rparr>
     (\<lambda>k. ''9d8c7b6a-1f2e-4d3c-8b4a-5f6e7d8c9b0a'') ''eval(x)'' ''javascript''"
    then have "pattern_detection (\<lambda>k. ''3f2b8c1e-5d4a-4e6f-9a7b-0c1d2e3f4a5b'') ''eval(x)'' =
               pattern_detection (\<lambda>k. ''9d8c7b6a-1f2e-4d3c-8b4a-5f6e7d8c9b0a'') ''eval(x)''"
      by (simp add: detect_simple_vulnerabilities_def)
    with a b show False by simp
  qed
qed

text \<open>
  Claim C3 fails on the column number. The rules test the lower-cased line and then
  search the original line for the pattern as written, so for a marker typed in another
  case \<open>find\<close> gives \<open>-1\<close>.
\<close>

theorem detect_negative_column:
  "map column_number (fst (detect_simple_vulnerabilities
     \<lparr>ML_AVAILABLE = False, get_detector = Inl (Exception ''not loaded'')\<rparr>
     (\<lambda>k. ''3f2b8c1e-5d4a-4e6f-9a7b-0c1d2e3f4a5b'') ''EVAL(x)'' ''javascript'')) = [- 1]"
proof -
  have "map column_number
          (pattern_detection (\<lambda>k. ''3f2b8c1e-5d4a-4e6f-9a7b-0c1d2e3f4a5b'') ''EVAL(x)'') = [- 1]"
    by code_simp
  then show ?thesis by (simp add: detect_simple_vulnerabilities_def)
qed

lemma sigmoid_range: "0 < sigmoid x \<and> sigmoid x < 1"
proof -
  have e: "0 < exp (- x)" by simp
  then have a: "0 < 1 + exp (- x)" by linarith
  have b: "1 < 1 + exp (- x)" using e by linarith
  have "0 < 1 / (1 + exp (- x))" by (rule divide_pos_pos[OF zero_less_one a])
  moreover have "1 / (1 + exp (- x)) < 1" using b by (simp only: divide_less_eq_1_pos[OF a])
  ultimately show ?thesis by (simp add: sigmoid_def)
qed

lemma extract_results_sound:
  assumes "extract_results threshold idx scores acc = Inr results"
    and "\<forall>p\<in>set acc. p_category p \<in> set vulnerability_labels \<and> p_confidence p \<in> set all_scores"
    and "set scores \<subseteq> set all_scores"
  shows "\<forall>p\<in>set results. p_category p \<in> set vulnerability_labels \<and> p_confidence p \<in> set all_scores"
  using assms
proof (induction scores arbitrary: idx acc)
  case Nil
  then show ?case by simp
next
  case (Cons score scores)
  show ?case
  proof (cases "threshold < score")
    case False
    with Cons.prems(1) have "extract_results threshold (idx + 1) scores acc = Inr results" by simp
    from Cons.IH[OF this Cons.prems(2)] Cons.prems(3) show ?thesis by simp
  next
    case True
    show ?thesis
    proof (cases "idx < length vulnerability_labels")
      case False
      with True Cons.prems(1) show ?thesis by simp
    next
      case i: True
      let ?new = "\<lparr>p_category = vulnerability_labels ! idx, p_confidence = score,
                   p_severity = get_severity (vulnerability_labels ! idx),
                   p_source = ''ml_model''\<rparr>"
      have r: "extract_results threshold (idx + 1) scores (acc @ [?new]) = Inr results"
        using True i Cons.prems(1) by simp
      have "p_category ?new \<in> set vulnerability_labels" using i by simp
      moreover have "p_confidence ?new \<in> set all_scores" using Cons.prems(3) by simp
      ultimately have a: "\<forall>p\<in>set (acc @ [?new]).
          p_category p \<in> set vulnerability_labels \<and> p_confidence p \<in> set all_scores"
        using Cons.prems(2) by simp
      from Cons.IH[OF r a] Cons.prems(3) show ?thesis by simp
    qed
  qed
qed

lemma predict_sound:
  "\<forall>p\<in>set (fst (predict detector code threshold)).
     p_category p \<in> set vulnerability_labels \<and> 0 < p_confidence p \<and> p_confidence p < 1"
proof
  fix p assume p: "p \<in> set (fst (predict detector code threshold))"
  then obtain m t inputs logits results where
    r: "extract_results threshold 0 (map sigmoid logits) [] = Inr results" and pr: "p \<in> set results"
    by (auto simp: predict_def split: option.splits sum.splits exn.splits)
  from extract_results_sound[OF r, of "map sigmoid logits"] pr
  have "p_category p \<in> set vulnerability_labels" "p_confidence p \<in> set (map sigmoid logits)"
    by simp_all
  then show "p_category p \<in> set vulnerability_labels \<and> 0 < p_confidence p \<and> p_confidence p < 1"
    using sigmoid_range by auto
qed

lemma pattern_finding_sound:
  "pattern_finding v \<Longrightarrow>
   category v \<in> set vulnerability_labels \<and> 0 \<le> confidence_score v \<and> confidence_score v \<le> 1"
  by (auto simp: pattern_finding_def vulnerability_labels_def)

text \<open>
  The other fields of a finding are in range on both paths: the category is one of the ten
  labels and the confidence lies between 0 and 1.
\<close>

lemma detect_confidence_and_category:
  "\<forall>v\<in>set (fst (detect_simple_vulnerabilities env uuid4 code language)).
     category v \<in> set vulnerability_labels \<and> 0 \<le> confidence_score v \<and> confidence_score v \<le> 1"
proof -
  let ?ok = "\<lambda>v. category v \<in> set vulnerability_labels \<and> 0 \<le> confidence_score v \<and> confidence_score v \<le> 1"
  have pats: "\<forall>v\<in>set (pattern_detection uuid4 code). ?ok v"
    using scan_lines_grows[of uuid4 1 "split_nl code" "[]"] pattern_finding_sound
    unfolding pattern_detection_def by auto
  show ?thesis
  proof (cases "ML_AVAILABLE env")
    case False
    then show ?thesis using pats by (simp add: detect_simple_vulnerabilities_def)
  next
    case True
    show ?thesis
    proof (cases "get_detector env")
      case (Inl e)
      then show ?thesis using True pats by (cases e) (simp add: detect_simple_vulnerabilities_def)
    next
      case (Inr detector)
      obtain preds printed where q: "predict detector code 0.6 = (preds, printed)"
        by (cases "predict detector code 0.6")
      have ps: "\<forall>p\<in>set preds. p_category p \<in> set vulnerability_labels \<and>
                  0 < p_confidence p \<and> p_confidence p < 1"
        using predict_sound[of detector code "0.6"] q by simp
      from ml_merge_grows[of uuid4 code preds "pattern_detection uuid4 code"] obtain ys where
        ys: "ml_merge uuid4 code preds (pattern_detection uuid4 code) = pattern_detection uuid4 code @ ys"
        and new: "\<forall>y\<in>set ys. \<exists>p\<in>set preds. category y = p_category p \<and>
                    severity y = p_severity p \<and> confidence_score y = p_confidence p"
        by blast
      have "\<forall>y\<in>set ys. ?ok y"
      proof
        fix y assume "y \<in> set ys"
        with new obtain p where "p \<in> set preds" "category y = p_category p"
          "confidence_score y = p_confidence p" by blast
        with ps show "?ok y" by force
      qed
      with pats have "\<forall>v\<in>set (pattern_detection uuid4 code @ ys). ?ok v" by auto
      then show ?thesis
        using True Inr q ys by (simp add: detect_simple_vulnerabilities_def)
    qed
  qed
qed

section \<open>Properties of the worker\<close>

lemma process_code_analysis_stores:
  assumes "process_code_analysis message_data s = (None, s')"
  shows "\<exists>c. message_data ''code'' = Some c \<and>
         kv s' = (kv s)(''result:'' @ format_opt (message_data ''analysis_id'') \<mapsto>
           (3600, JObj [(''analysis_id'', json_opt (message_data ''analysis_id'')),
                        (''status'', JStr ''completed''),
                        (''processed_at'', JStr (clock s (clock_reads s))),
                        (''vulnerabilities_found'', JInt 0)]))
         \<and> pending s' = pending s"
  using assms
  by (auto simp: process_code_analysis_def setex_def Let_def split: option.splits)

lemma process_code_analysis_fails:
  assumes "process_code_analysis message_data s = (Some e, s')"
  shows "kv s' = kv s \<and> pending s' = pending s \<and> stream s' = stream s \<and>
         last_delivered s' = last_delivered s"
  using assms
  by (auto simp: process_code_analysis_def setex_def Let_def split: option.splits)

lemma xack_ok:
  assumes "xack message_id s = (None, s')"
  shows "kv s' = kv s \<and> pending s' = removeAll message_id (pending s)"
  using assms by (auto simp: xack_def split: option.splits)

lemma process_entries_ok_pending:
  assumes "process_entries entries s = (None, s')"
  shows "set (pending s') = set (pending s) - set (map fst entries)"
  using assms
proof (induction entries arbitrary: s)
  case Nil
  then show ?case by simp
next
  case (Cons entry entries)
  obtain message_id message_data where entry: "entry = (message_id, message_data)"
    by (cases entry)
  obtain r1 s1 where p: "process_code_analysis message_data s = (r1, s1)"
    by (cases "process_code_analysis message_data s")
  have r1: "r1 = None" using Cons.prems entry p by (cases r1) simp_all
  obtain r2 s2 where a: "xack message_id s1 = (r2, s2)" by (cases "xack message_id s1")
  have r2: "r2 = None" using Cons.prems entry p r1 a by (cases r2) simp_all
  have rest: "process_entries entries s2 = (None, s')"
    using Cons.prems entry p r1 a r2 by simp
  have "pending s1 = pending s"
    using process_code_analysis_stores[of message_data s s1] p r1 by simp
  moreover have "pending s2 = removeAll message_id (pending s1)"
    using xack_ok[of message_id s1 s2] a r2 by simp
  ultimately have "set (pending s2) = set (pending s) - {message_id}" by auto
  with Cons.IH[OF rest] show ?case using entry by auto
qed

lemma process_entries_stops:
  assumes "process_entries pre s0 = (None, s1)"
    and "process_code_analysis md s1 = (Some e, s2)"
  shows "process_entries (pre @ (mid, md) # rest) s0 = (Some e, s2)"
  using assms
proof (induction pre arbitrary: s0)
  case Nil
  then show ?case by simp
next
  case (Cons entry pre)
  obtain message_id message_data where entry: "entry = (message_id, message_data)"
    by (cases entry)
  obtain r1 t1 where p: "process_code_analysis message_data s0 = (r1, t1)"
    by (cases "process_code_analysis message_data s0")
  have r1: "r1 = None" using Cons.prems(1) entry p by (cases r1) simp_all
  obtain r2 t2 where a: "xack message_id t1 = (r2, t2)" by (cases "xack message_id t1")
  have r2: "r2 = None" using Cons.prems(1) entry p r1 a by (cases r2) simp_all
  have rest: "process_entries pre t2 = (None, s1)"
    using Cons.prems(1) entry p r1 a r2 by simp
  from Cons.IH[OF rest Cons.prems(2)] show ?case
    using entry p r1 a r2 by simp
qed

lemma xreadgroup_batch:
  assumes "xreadgroup s = (Inr [(name, batch)], s0)"
  shows "pending s0 = pending s @ map fst batch \<and> kv s0 = kv s"
  using assms
  by (auto simp: xreadgroup_def Let_def split: option.splits if_splits)

lemma process_entries_ok_keeps_outcome:
  assumes "process_entries entries s = (None, s')"
    and "\<exists>aid t. kv s k = Some (3600, JObj [(''analysis_id'', aid),
                                               (''status'', JStr ''completed''),
                                               (''processed_at'', JStr t),
                                               (''vulnerabilities_found'', JInt 0)])"
  shows "\<exists>aid t. kv s' k = Some (3600, JObj [(''analysis_id'', aid),
                                               (''status'', JStr ''completed''),
                                               (''processed_at'', JStr t),
                                               (''vulnerabilities_found'', JInt 0)])"
  using assms
proof (induction entries arbitrary: s)
  case Nil
  then show ?case by simp
next
  case (Cons entry entries)
  obtain message_id message_data where entry: "entry = (message_id, message_data)"
    by (cases entry)
  obtain r1 s1 where p: "process_code_analysis message_data s = (r1, s1)"
    by (cases "process_code_analysis message_data s")
  have r1: "r1 = None" using Cons.prems(1) entry p by (cases r1) simp_all
  obtain r2 s2 where a: "xack message_id s1 = (r2, s2)" by (cases "xack message_id s1")
  have r2: "r2 = None" using Cons.prems(1) entry p r1 a by (cases r2) simp_all
  have rest: "process_entries entries s2 = (None, s')"
    using Cons.prems(1) entry p r1 a r2 by simp
  have k1: "kv s1 = (kv s)(''result:'' @ format_opt (message_data ''analysis_id'') \<mapsto>
           (3600, JObj [(''analysis_id'', json_opt (message_data ''analysis_id'')),
                        (''status'', JStr ''completed''),
                        (''processed_at'', JStr (clock s (clock_reads s))),
                        (''vulnerabilities_found'', JInt 0)]))"
    using process_code_analysis_stores[of message_data s s1] p r1 by simp
  have k2: "kv s2 = kv s1" using xack_ok[of message_id s1 s2] a r2 by simp
  have "\<exists>aid t. kv s2 k = Some (3600, JObj [(''analysis_id'', aid),
                                               (''status'', JStr ''completed''),
                                               (''processed_at'', JStr t),
                                               (''vulnerabilities_found'', JInt 0)])"
  proof (cases "k = ''result:'' @ format_opt (message_data ''analysis_id'')")
    case True
    then have "kv s2 k = Some (3600, JObj [(''analysis_id'', json_opt (message_data ''analysis_id'')),
                        (''status'', JStr ''completed''),
                        (''processed_at'', JStr (clock s (clock_reads s))),
                        (''vulnerabilities_found'', JInt 0)])"
      using k1 k2 by simp
    then show ?thesis by blast
  next
    case False
    then have "kv s2 k = kv s k" using k1 k2 by simp
    then show ?thesis using Cons.prems(2) by simp
  qed
  from Cons.IH[OF rest this] show ?case .
qed

lemma process_entries_ok_stored:
  assumes "process_entries entries s = (None, s')"
    and "(i, d) \<in> set entries"
  shows "\<exists>aid t. kv s' (''result:'' @ format_opt (d ''analysis_id'')) =
           Some (3600, JObj [(''analysis_id'', aid),
                             (''status'', JStr ''completed''),
                             (''processed_at'', JStr t),
                             (''vulnerabilities_found'', JInt 0)])"
  using assms
proof (induction entries arbitrary: s)
  case Nil
  then show ?case by simp
next
  case (Cons entry entries)
  obtain message_id message_data where entry: "entry = (message_id, message_data)"
    by (cases entry)
  obtain r1 s1 where p: "process_code_analysis message_data s = (r1, s1)"
    by (cases "process_code_analysis message_data s")
  have r1: "r1 = None" using Cons.prems(1) entry p by (cases r1) simp_all
  obtain r2 s2 where a: "xack message_id s1 = (r2, s2)" by (cases "xack message_id s1")
  have r2: "r2 = None" using Cons.prems(1) entry p r1 a by (cases r2) simp_all
  have rest: "process_entries entries s2 = (None, s')"
    using Cons.prems(1) entry p r1 a r2 by simp
  have k1: "kv s1 = (kv s)(''result:'' @ format_opt (message_data ''analysis_id'') \<mapsto>
           (3600, JObj [(''analysis_id'', json_opt (message_data ''analysis_id'')),
                        (''status'', JStr ''completed''),
                        (''processed_at'', JStr (clock s (clock_reads s))),
                        (''vulnerabilities_found'', JInt 0)]))"
    using process_code_analysis_stores[of message_data s s1] p r1 by simp
  have k2: "kv s2 = kv s1" using xack_ok[of message_id s1 s2] a r2 by simp
  show ?case
  proof (cases "(i, d) = entry")
    case True
    then have "d = message_data" using entry by simp
    then have "kv s2 (''result:'' @ format_opt (d ''analysis_id'')) =
        Some (3600, JObj [(''analysis_id'', json_opt (message_data ''analysis_id'')),
                        (''status'', JStr ''completed''),
                        (''processed_at'', JStr (clock s (clock_reads s))),
                        (''vulnerabilities_found'', JInt 0)])"
      using k1 k2 by simp
    then have "\<exists>aid t. kv s2 (''result:'' @ format_opt (d ''analysis_id'')) =
        Some (3600, JObj [(''analysis_id'', aid),
                        (''status'', JStr ''completed''),
                        (''processed_at'', JStr t),
                        (''vulnerabilities_found'', JInt 0)])" by blast
    with rest show ?thesis by (rule process_entries_ok_keeps_outcome)
  next
    case False
    then have "(i, d) \<in> set entries" using Cons.prems(2) by auto
    from Cons.IH[OF rest this] show ?thesis .
  qed
qed

text \<open>
  Claim C7, amended. When the processing of an entry of the batch raises an error, the
  pass ends there: the loop goes on to its next pass after one sleep, nothing is stored
  for the failed entry, and the failed entry and every later entry of the batch stay
  pending. The entries before it have been processed and acknowledged: none of them is
  pending any more, and for each of them a completed outcome is stored under its key
  with an expiry of one hour.
\<close>

theorem loop_body_entry_failure:
  assumes "xreadgroup s = (Inr [(name, pre @ (mid, md) # rest)], s0)"
    and "process_entries pre s0 = (None, s1)"
    and "process_code_analysis md s1 = (Some (Err e), s2)"
    and "distinct (map fst (pre @ (mid, md) # rest))"
  shows "loop_body s = (Continue, s2\<lparr>sleeps := sleeps s2 + 1\<rparr>)
       \<and> main_loop (Suc fuel) s = main_loop fuel (s2\<lparr>sleeps := sleeps s2 + 1\<rparr>)
       \<and> kv s2 = kv s1
       \<and> (\<forall>i\<in>set (mid # map fst rest). i \<in> set (pending (snd (loop_body s))))
       \<and> (\<forall>i\<in>set (map fst pre). i \<notin> set (pending (snd (loop_body s))))
       \<and> (\<forall>(i, d)\<in>set pre. \<exists>aid t.
             kv (snd (loop_body s)) (''result:'' @ format_opt (d ''analysis_id'')) =
               Some (3600, JObj [(''analysis_id'', aid),
                                 (''status'', JStr ''completed''),
                                 (''processed_at'', JStr t),
                                 (''vulnerabilities_found'', JInt 0)]))"
proof -
  have stop: "process_entries (pre @ (mid, md) # rest) s0 = (Some (Err e), s2)"
    using assms(2,3) by (rule process_entries_stops)
  have body: "loop_body s = (Continue, s2\<lparr>sleeps := sleeps s2 + 1\<rparr>)"
    using assms(1) stop by (simp add: loop_body_def handle_raised_def)
  have loop: "main_loop (Suc fuel) s = main_loop fuel (s2\<lparr>sleeps := sleeps s2 + 1\<rparr>)"
    using body by simp
  have f: "kv s2 = kv s1" "pending s2 = pending s1"
    using process_code_analysis_fails[OF assms(3)] by simp_all
  have p0: "pending s0 = pending s @ map fst (pre @ (mid, md) # rest)"
    using xreadgroup_batch[OF assms(1)] by simp
  have p1: "set (pending s1) = set (pending s0) - set (map fst pre)"
    using assms(2) by (rule process_entries_ok_pending)
  have later: "\<forall>i\<in>set (mid # map fst rest). i \<in> set (pending (snd (loop_body s)))"
  proof
    fix i assume i: "i \<in> set (mid # map fst rest)"
    then have "i \<in> set (pending s0)" using p0 by auto
    moreover have "i \<notin> set (map fst pre)" using i assms(4) by auto
    ultimately have "i \<in> set (pending s1)" using p1 by simp
    then show "i \<in> set (pending (snd (loop_body s)))" using body f(2) by simp
  qed
  have earlier: "\<forall>i\<in>set (map fst pre). i \<notin> set (pending (snd (loop_body s)))"
    using p1 body f(2) by simp
  have stored: "\<forall>(i, d)\<in>set pre. \<exists>aid t.
             kv (snd (loop_body s)) (''result:'' @ format_opt (d ''analysis_id'')) =
               Some (3600, JObj [(''analysis_id'', aid),
                                 (''status'', JStr ''completed''),
                                 (''processed_at'', JStr t),
                                 (''vulnerabilities_found'', JInt 0)])"
  proof
    fix x assume x: "x \<in> set pre"
    obtain i d where xd: "x = (i, d)" by (cases x)
    with x have "(i, d) \<in> set pre" by simp
    from process_entries_ok_stored[OF assms(2) this]
    show "case x of (i, d) \<Rightarrow> \<exists>aid t.
             kv (snd (loop_body s)) (''result:'' @ format_opt (d ''analysis_id'')) =
               Some (3600, JObj [(''analysis_id'', aid),
                                 (''status'', JStr ''completed''),
                                 (''processed_at'', JStr t),
                                 (''vulnerabilities_found'', JInt 0)])"
      using xd body f(1) by simp
  qed
  from body loop f(1) later earlier stored show ?thesis by (intro conjI)
qed

text \<open>
  Claim C2 fails: the worker stores the outcome under \<open>result:a1\<close> for one hour and then
  acknowledges, but it never calls the detection engine. For an entry whose code the
  engine reports an XSS finding for, the stored outcome has \<open>vulnerabilities_found = 0\<close>
  and holds no finding.
\<close>

theorem worker_stores_no_findings:
  "kv (snd (loop_body
      \<lparr>kv = Map.empty,
       stream = [(''1-0'', [''analysis_id'' \<mapsto> ''a1'', ''code'' \<mapsto> ''eval(x)'',
                            ''language'' \<mapsto> ''javascript'', ''file_path'' \<mapsto> ''app.js''])],
       last_delivered = 0, pending = [], faults = (\<lambda>n. None), commands = 0,
       clock = (\<lambda>n. ''2024-05-01T10:00:00''), clock_reads = 0, sleeps = 0\<rparr>)) ''result:a1'' =
     Some (3600, JObj [(''analysis_id'', JStr ''a1''), (''status'', JStr ''completed''),
                       (''processed_at'', JStr ''2024-05-01T10:00:00''),
                       (''vulnerabilities_found'', JInt 0)])
 \<and> pending (snd (loop_body
      \<lparr>kv = Map.empty,
       stream = [(''1-0'', [''analysis_id'' \<mapsto> ''a1'', ''code'' \<mapsto> ''eval(x)'',
                            ''language'' \<mapsto> ''javascript'', ''file_path'' \<mapsto> ''app.js''])],
       last_delivered = 0, pending = [], faults = (\<lambda>n. None), commands = 0,
       clock = (\<lambda>n. ''2024-05-01T10:00:00''), clock_reads = 0, sleeps = 0\<rparr>)) = []
 \<and> map category (fst (detect_simple_vulnerabilities
        \<lparr>ML_AVAILABLE = False, get_detector = Inl (Exception ''not loaded'')\<rparr>
        (\<lambda>k. ''3f2b8c1e-5d4a-4e6f-9a7b-0c1d2e3f4a5b'') ''eval(x)'' ''javascript'')) =
     [''Cross-Site Scripting (XSS)'']"
proof -
  have d: "map category
     (pattern_detection (\<lambda>k. ''3f2b8c1e-5d4a-4e6f-9a7b-0c1d2e3f4a5b'') ''eval(x)'') =
     [''Cross-Site Scripting (XSS)'']"
    by code_simp
  show ?thesis
    using d
    by (simp add: loop_body_def xreadgroup_def process_code_analysis_def setex_def xack_def
        format_opt_def json_opt_def detect_simple_vulnerabilities_def Let_def)
qed

text \<open>
  Claim C7 as stated fails. In a batch of two entries whose first has no field \<open>code\<close>,
  the loop goes on, but the second entry is not processed: nothing is stored for it, it
  stays pending, and the next pass does not read it again. Alone in a batch the same
  entry is processed.
\<close>

theorem worker_skips_rest_of_batch:
  "fst (loop_body
      \<lparr>kv = Map.empty,
       stream = [(''1-0'', [''analysis_id'' \<mapsto> ''a1'']),
                 (''2-0'', [''analysis_id'' \<mapsto> ''a2'', ''code'' \<mapsto> ''eval(x)''])],
       last_delivered = 0, pending = [], faults = (\<lambda>n. None), commands = 0,
       clock = (\<lambda>n. ''2024-05-01T10:00:00''), clock_reads = 0, sleeps = 0\<rparr>) = Continue
 \<and> kv (snd (loop_body
      \<lparr>kv = Map.empty,
       stream = [(''1-0'', [''analysis_id'' \<mapsto> ''a1'']),
                 (''2-0'', [''analysis_id'' \<mapsto> ''a2'', ''code'' \<mapsto> ''eval(x)''])],
       last_delivered = 0, pending = [], faults = (\<lambda>n. None), commands = 0,
       clock = (\<lambda>n. ''2024-05-01T10:00:00''), clock_reads = 0, sleeps = 0\<rparr>)) ''result:a2'' = None
 \<and> pending (snd (loop_body
      \<lparr>kv = Map.empty,
       stream = [(''1-0'', [''analysis_id'' \<mapsto> ''a1'']),
                 (''2-0'', [''analysis_id'' \<mapsto> ''a2'', ''code'' \<mapsto> ''eval(x)''])],
       last_delivered = 0, pending = [], faults = (\<lambda>n. None), commands = 0,
       clock = (\<lambda>n. ''2024-05-01T10:00:00''), clock_reads = 0, sleeps = 0\<rparr>)) = [''1-0'', ''2-0'']
 \<and> kv (snd (loop_body (snd (loop_body
      \<lparr>kv = Map.empty,
       stream = [(''1-0'', [''analysis_id'' \<mapsto> ''a1'']),
                 (''2-0'', [''analysis_id'' \<mapsto> ''a2'', ''code'' \<mapsto> ''eval(x)''])],
       last_delivered = 0, pending = [], faults = (\<lambda>n. None), commands = 0,
       clock = (\<lambda>n. ''2024-05-01T10:00:00''), clock_reads = 0, sleeps = 0\<rparr>)))) ''result:a2'' = None
 \<and> kv (snd (loop_body
      \<lparr>kv = Map.empty,
       stream = [(''2-0'', [''analysis_id'' \<mapsto> ''a2'', ''code'' \<mapsto> ''eval(x)''])],
       last_delivered = 0, pending = [], faults = (\<lambda>n. None), commands = 0,
       clock = (\<lambda>n. ''2024-05-01T10:00:00''), clock_reads = 0, sleeps = 0\<rparr>)) ''result:a2'' \<noteq> None"
  by (simp add: loop_body_def xreadgroup_def process_code_analysis_def setex_def xack_def
      handle_raised_def format_opt_def json_opt_def Let_def)

text \<open>
  Claim C7, amended, at a batch of three entries: the first is processed and
  acknowledged, the second has no field \<open>code\<close>, the third is never reached.
\<close>

theorem loop_body_entry_failure_witness:
  "loop_body
      \<lparr>kv = Map.empty,
       stream = [(''1-0'', [''analysis_id'' \<mapsto> ''a1'', ''code'' \<mapsto> ''x = 1'']),
                 (''2-0'', [''analysis_id'' \<mapsto> ''a2'']),
                 (''3-0'', [''analysis_id'' \<mapsto> ''a3'', ''code'' \<mapsto> ''eval(x)''])],
       last_delivered = 0, pending = [], faults = (\<lambda>n. None), commands = 0,
       clock = (\<lambda>n. ''2024-05-01T10:00:00''), clock_reads = 0, sleeps = 0\<rparr> =
   (Continue,
      \<lparr>kv = [''result:a1'' \<mapsto>
               (3600, JObj [(''analysis_id'', JStr ''a1''), (''status'', JStr ''completed''),
                            (''processed_at'', JStr ''2024-05-01T10:00:00''),
                            (''vulnerabilities_found'', JInt 0)])],
       stream = [(''1-0'', [''analysis_id'' \<mapsto> ''a1'', ''code'' \<mapsto> ''x = 1'']),
                 (''2-0'', [''analysis_id'' \<mapsto> ''a2'']),
                 (''3-0'', [''analysis_id'' \<mapsto> ''a3'', ''code'' \<mapsto> ''eval(x)''])],
       last_delivered = 3, pending = [''2-0'', ''3-0''], faults = (\<lambda>n. None), commands = 3,
       clock = (\<lambda>n. ''2024-05-01T10:00:00''), clock_reads = 1, sleeps = 1\<rparr>)
 \<and> pending (snd (loop_body
      \<lparr>kv = Map.empty,
       stream = [(''1-0'', [''analysis_id'' \<mapsto> ''a1'', ''code'' \<mapsto> ''x = 1'']),
                 (''2-0'', [''analysis_id'' \<mapsto> ''a2'']),
                 (''3-0'', [''analysis_id'' \<mapsto> ''a3'', ''code'' \<mapsto> ''eval(x)''])],
       last_delivered = 0, pending = [], faults = (\<lambda>n. None), commands = 0,
       clock = (\<lambda>n. ''2024-05-01T10:00:00''), clock_reads = 0, sleeps = 0\<rparr>)) = [''2-0'', ''3-0'']
 \<and> ''1-0'' \<notin> set (pending (snd (loop_body
      \<lparr>kv = Map.empty,
       stream = [(''1-0'', [''analysis_id'' \<mapsto> ''a1'', ''code'' \<mapsto> ''x = 1'']),
                 (''2-0'', [''analysis_id'' \<mapsto> ''a2'']),
                 (''3-0'', [''analysis_id'' \<mapsto> ''a3'', ''code'' \<mapsto> ''eval(x)''])],
       last_delivered = 0, pending = [], faults = (\<lambda>n. None), commands = 0,
       clock = (\<lambda>n. ''2024-05-01T10:00:00''), clock_reads = 0, sleeps = 0\<rparr>)))
 \<and> kv (snd (loop_body
      \<lparr>kv = Map.empty,
       stream = [(''1-0'', [''analysis_id'' \<mapsto> ''a1'', ''code'' \<mapsto> ''x = 1'']),
                 (''2-0'', [''analysis_id'' \<mapsto> ''a2'']),
                 (''3-0'', [''analysis_id'' \<mapsto> ''a3'', ''code'' \<mapsto> ''eval(x)''])],
       last_delivered = 0, pending = [], faults = (\<lambda>n. None), commands = 0,
       clock = (\<lambda>n. ''2024-05-01T10:00:00''), clock_reads = 0, sleeps = 0\<rparr>)) ''result:a1'' =
     Some (3600, JObj [(''analysis_id'', JStr ''a1''), (''status'', JStr ''completed''),
                       (''processed_at'', JStr ''2024-05-01T10:00:00''),
                       (''vulnerabilities_found'', JInt 0)])"
proof -
  let ?ma = "[''analysis_id'' \<mapsto> ''a1'', ''code'' \<mapsto> ''x = 1''] :: message_data"
  let ?mb = "[''analysis_id'' \<mapsto> ''a2''] :: message_data"
  let ?mc = "[''analysis_id'' \<mapsto> ''a3'', ''code'' \<mapsto> ''eval(x)''] :: message_data"
  let ?entries = "[(''1-0'', ?ma), (''2-0'', ?mb), (''3-0'', ?mc)]"
  let ?out = "(3600 :: nat, JObj [(''analysis_id'', JStr ''a1''), (''status'', JStr ''completed''),
                            (''processed_at'', JStr ''2024-05-01T10:00:00''),
                            (''vulnerabilities_found'', JInt 0)])"
  let ?s = "\<lparr>kv = Map.empty, stream = ?entries,
       last_delivered = 0, pending = [], faults = (\<lambda>n. None), commands = 0,
       clock = (\<lambda>n. ''2024-05-01T10:00:00''), clock_reads = 0, sleeps = 0\<rparr>"
  let ?t = "\<lparr>kv = Map.empty, stream = ?entries,
       last_delivered = 3, pending = [''1-0'', ''2-0'', ''3-0''], faults = (\<lambda>n. None),
       commands = 1, clock = (\<lambda>n. ''2024-05-01T10:00:00''), clock_reads = 0, sleeps = 0\<rparr>"
  let ?u = "\<lparr>kv = [''result:a1'' \<mapsto> ?out], stream = ?entries,
       last_delivered = 3, pending = [''2-0'', ''3-0''], faults = (\<lambda>n. None),
       commands = 3, clock = (\<lambda>n. ''2024-05-01T10:00:00''), clock_reads = 1, sleeps = 0\<rparr>"
  have h1: "xreadgroup ?s =
              (Inr [(''code_analysis_stream'', [(''1-0'', ?ma)] @ (''2-0'', ?mb) # [(''3-0'', ?mc)])], ?t)"
    by (simp add: xreadgroup_def Let_def)
  have h2: "process_entries [(''1-0'', ?ma)] ?t = (None, ?u)"
    by (simp add: process_code_analysis_def setex_def xack_def format_opt_def json_opt_def Let_def)
  have h3: "process_code_analysis ?mb ?u =
              (Some (Err (Exception ''object of type NoneType has no len()'')), ?u)"
    by (simp add: process_code_analysis_def Let_def)
  have h4: "distinct (map fst ([(''1-0'', ?ma)] @ (''2-0'', ?mb) # [(''3-0'', ?mc)]))" by simp
  from loop_body_entry_failure[OF h1 h2 h3 h4, of 0]
  show ?thesis by simp
qed

section \<open>Properties of the connection manager\<close>

lemma send_json_closed:
  "\<not> ws_open (sockets st h) \<Longrightarrow> send_json msg h st = (Some (Exception ''WebSocketDisconnect''), st)"
  by (simp add: send_json_def)

lemma send_json_open:
  "ws_open (sockets st h) \<Longrightarrow>
   send_json msg h st =
     (None, st\<lparr>sockets := (sockets st)(h := (sockets st h)\<lparr>ws_sent := ws_sent (sockets st h) @ [msg]\<rparr>)\<rparr>)"
  by (simp add: send_json_def)

lemma broadcast_sends_all_closed:
  assumes "\<forall>h\<in>set conns. \<not> ws_open (sockets st h)"
  shows "\<exists>d. broadcast_sends msg conns acc st = (d, st) \<and> set d = set acc \<union> set conns"
  using assms
proof (induction conns arbitrary: acc)
  case Nil
  then show ?case by simp
next
  case (Cons h conns)
  have closed: "send_json msg h st = (Some (Exception ''WebSocketDisconnect''), st)"
    using Cons.prems by (simp add: send_json_closed)
  have "\<forall>h\<in>set conns. \<not> ws_open (sockets st h)" using Cons.prems by simp
  from Cons.IH[OF this, of "set_add h acc"] obtain d where
    d: "broadcast_sends msg conns (set_add h acc) st = (d, st)"
       "set d = set (set_add h acc) \<union> set conns" by blast
  have "broadcast_sends msg (h # conns) acc st = (d, st)" using closed d(1) by simp
  moreover have "set d = set acc \<union> set (h # conns)" using d(2) by (auto simp: set_add_def)
  ultimately show ?case by blast
qed

lemma remove_disconnected_result:
  assumes "active_connections st client_id = Some conns"
  shows "active_connections (remove_disconnected client_id d st) =
           (active_connections st)(client_id \<mapsto> filter (\<lambda>h. h \<notin> set d) conns)
         \<and> sockets (remove_disconnected client_id d st) = sockets st"
  using assms
proof (induction d arbitrary: st conns)
  case Nil
  then show ?case by (auto simp: fun_eq_iff)
next
  case (Cons x d)
  let ?st = "st\<lparr>active_connections :=
            (active_connections st)
              (client_id \<mapsto> set_discard x
                 (case active_connections st client_id of None \<Rightarrow> [] | Some c \<Rightarrow> c))\<rparr>"
  have a: "active_connections ?st client_id = Some (removeAll x conns)"
    using Cons.prems by (simp add: set_discard_def)
  have f: "filter (\<lambda>h. h \<notin> set d) (removeAll x conns) = filter (\<lambda>h. h \<notin> set (x # d)) conns"
    by (induction conns) auto
  have step: "remove_disconnected client_id (x # d) st = remove_disconnected client_id d ?st"
    by simp
  have ast: "active_connections ?st = (active_connections st)(client_id \<mapsto> removeAll x conns)"
    using Cons.prems by (simp add: set_discard_def)
  have sst: "sockets ?st = sockets st" by simp
  note ih = Cons.IH[OF a]
  have "active_connections (remove_disconnected client_id d ?st) =
          (active_connections ?st)(client_id \<mapsto> filter (\<lambda>h. h \<notin> set d) (removeAll x conns))"
    using ih by (rule conjunct1)
  also have "\<dots> = (active_connections st)(client_id \<mapsto> filter (\<lambda>h. h \<notin> set (x # d)) conns)"
    by (simp only: ast f fun_upd_upd)
  finally have 1: "active_connections (remove_disconnected client_id (x # d) st) =
          (active_connections st)(client_id \<mapsto> filter (\<lambda>h. h \<notin> set (x # d)) conns)"
    by (simp only: step)
  have "sockets (remove_disconnected client_id d ?st) = sockets ?st"
    using ih by (rule conjunct2)
  then have 2: "sockets (remove_disconnected client_id (x # d) st) = sockets st"
    by (simp only: step sst)
  from 1 2 show ?case by (rule conjI)
qed

text \<open>
  Claim C8. A client has two registered connections; during a broadcast the send to one
  fails and the send to the other succeeds. Afterwards exactly the second one is
  registered for the client, it has received the message, and nothing was sent on the
  first. This holds in whichever order the set is traversed.
\<close>

theorem broadcast_isolates_failed_send:
  assumes "active_connections st client_id = Some conns"
    and "set conns = {h1, h2}" and "distinct conns" and "h1 \<noteq> h2"
    and "\<not> ws_open (sockets st h1)" and "ws_open (sockets st h2)"
  shows "active_connections (broadcast_to_client msg client_id st) client_id = Some [h2]
       \<and> ws_sent (sockets (broadcast_to_client msg client_id st) h2) =
           ws_sent (sockets st h2) @ [msg]
       \<and> sockets (broadcast_to_client msg client_id st) h1 = sockets st h1"
proof -
  have "card (set conns) = 2" using assms(2,4) by simp
  then have "length conns = 2" using distinct_card[OF assms(3)] by simp
  then obtain a b where ab: "conns = [a, b]"
    by (auto simp: length_Suc_conv numeral_2_eq_2)
  with assms(2,4) have "(a = h1 \<and> b = h2) \<or> (a = h2 \<and> b = h1)"
    by (auto simp: doubleton_eq_iff)
  then show ?thesis
  proof
    assume "a = h1 \<and> b = h2"
    then have c: "conns = [h1, h2]" using ab by simp
    show ?thesis
      using assms(1,4,5,6) unfolding c
      by (simp add: broadcast_to_client_def send_json_def set_add_def set_discard_def)
  next
    assume "a = h2 \<and> b = h1"
    then have c: "conns = [h2, h1]" using ab by simp
    show ?thesis
      using assms(1,4,5,6) unfolding c
      by (simp add: broadcast_to_client_def send_json_def set_add_def set_discard_def)
  qed
qed

lemma disconnect_no_empty_sets:
  assumes "no_empty_sets st"
  shows "no_empty_sets (disconnect websocket client_id st)"
proof (cases "active_connections st client_id")
  case None
  then show ?thesis using assms by (simp add: disconnect_def)
next
  case (Some conns)
  show ?thesis
  proof (cases "set_discard websocket conns = []")
    case True
    then have "active_connections (disconnect websocket client_id st) =
                 (active_connections st)(client_id := None)"
      using Some by (simp add: disconnect_def)
    then show ?thesis using assms by (auto simp: no_empty_sets_def split: if_splits)
  next
    case False
    then have "active_connections (disconnect websocket client_id st) =
                 (active_connections st)(client_id \<mapsto> set_discard websocket conns)"
      using Some by (simp add: disconnect_def)
    then show ?thesis using assms False by (auto simp: no_empty_sets_def split: if_splits)
  qed
qed

lemma broadcast_all_closed:
  assumes "active_connections st client_id = Some conns"
    and "\<forall>h\<in>set conns. \<not> ws_open (sockets st h)"
  shows "active_connections (broadcast_to_client msg client_id st) client_id = Some []"
proof -
  from broadcast_sends_all_closed[OF assms(2), of msg "[]"] obtain d where
    d: "broadcast_sends msg conns [] st = (d, st)" "set d = set conns" by auto
  have "filter (\<lambda>h. h \<notin> set d) conns = []" using d(2) by (simp add: filter_empty_conv)
  then show ?thesis
    using assms(1) d(1) remove_disconnected_result[OF assms(1), of d]
    by (simp add: broadcast_to_client_def)
qed

text \<open>
  Claim C9. \<open>disconnect\<close> preserves the invariant that no client is registered with an
  empty set: it deletes the client's entry when removing the connection leaves the set
  empty, keeps the reduced set otherwise, and changes nothing else.
  \<open>broadcast_to_client\<close> does not preserve it: when every send to a client's
  connections fails, the client stays a key of the registry, bound to the empty set.
\<close>

theorem broadcast_leaves_empty_set:
  "(no_empty_sets st \<longrightarrow> no_empty_sets (disconnect websocket client_id st))
 \<and> (active_connections st client_id = Some conns \<and> removeAll websocket conns = [] \<longrightarrow>
      active_connections (disconnect websocket client_id st) =
        (active_connections st)(client_id := None)
      \<and> client_id \<notin> dom (active_connections (disconnect websocket client_id st)))
 \<and> (active_connections st client_id = Some conns \<and> removeAll websocket conns \<noteq> [] \<longrightarrow>
      active_connections (disconnect websocket client_id st) =
        (active_connections st)(client_id \<mapsto> removeAll websocket conns))
 \<and> (active_connections st client_id = None \<longrightarrow> disconnect websocket client_id st = st)
 \<and> sockets (disconnect websocket client_id st) = sockets st
 \<and> (active_connections st client_id = Some conns \<and> (\<forall>h\<in>set conns. \<not> ws_open (sockets st h)) \<longrightarrow>
      active_connections (broadcast_to_client msg client_id st) client_id = Some []
      \<and> client_id \<in> dom (active_connections (broadcast_to_client msg client_id st))
      \<and> \<not> no_empty_sets (broadcast_to_client msg client_id st))"
proof -
  have b: "active_connections (broadcast_to_client msg client_id st) client_id = Some []
      \<and> client_id \<in> dom (active_connections (broadcast_to_client msg client_id st))
      \<and> \<not> no_empty_sets (broadcast_to_client msg client_id st)"
    if "active_connections st client_id = Some conns"
      and "\<forall>h\<in>set conns. \<not> ws_open (sockets st h)"
  proof -
    have e: "active_connections (broadcast_to_client msg client_id st) client_id = Some []"
      using that by (rule broadcast_all_closed)
    then have "client_id \<in> dom (active_connections (broadcast_to_client msg client_id st))"
      by auto
    with e show ?thesis by (auto simp: no_empty_sets_def)
  qed
  have d1: "active_connections (disconnect websocket client_id st) =
        (active_connections st)(client_id := None)
      \<and> client_id \<notin> dom (active_connections (disconnect websocket client_id st))"
    if "active_connections st client_id = Some conns" and "removeAll websocket conns = []"
    using that by (simp add: disconnect_def set_discard_def)
  have d2: "active_connections (disconnect websocket client_id st) =
        (active_connections st)(client_id \<mapsto> removeAll websocket conns)"
    if "active_connections st client_id = Some conns" and "removeAll websocket conns \<noteq> []"
    using that by (simp add: disconnect_def set_discard_def)
  have d3: "disconnect websocket client_id st = st" if "active_connections st client_id = None"
    using that by (simp add: disconnect_def)
  have d4: "sockets (disconnect websocket client_id st) = sockets st"
    by (simp add: disconnect_def Let_def split: option.splits)
  from b d1 d2 d3 d4 disconnect_no_empty_sets show ?thesis by blast
qed

text \<open>
  Claim C10. For a decoded message whose \<open>type\<close> is \<open>analyze\<close>, on a connection that
  accepts both sends, the server sends \<open>analysis_queued\<close> and then \<open>analysis_result\<close>
  with status \<open>completed\<close> and the empty list of vulnerabilities, whatever
  \<open>analysis_id\<close> the message carries; no stored outcome is read.
\<close>

theorem analyze_reply:
  assumes "json_get msg ''type'' = Inr (JStr ''analyze'')"
    and "ws_open (sockets st websocket)" and "\<not> peer_closes"
  shows "\<exists>aid. json_get msg ''analysis_id'' = Inr aid \<and>
           handle_message peer_closes msg websocket st =
             (None, st\<lparr>sockets := (sockets st)
                (websocket := (sockets st websocket)
                   \<lparr>ws_sent := ws_sent (sockets st websocket) @
                      [JObj [(''type'', JStr ''analysis_queued''),
                             (''analysis_id'', aid),
                             (''status'', JStr ''processing'')],
                       JObj [(''type'', JStr ''analysis_result''),
                             (''analysis_id'', aid),
                             (''status'', JStr ''completed''),
                             (''vulnerabilities'', JArr [])]]\<rparr>)\<rparr>)"
proof -
  obtain kvs where m: "msg = JObj kvs"
    using assms(1) by (cases msg) (simp_all add: json_get_def)
  then obtain aid where aid: "json_get msg ''analysis_id'' = Inr aid"
    by (simp add: json_get_def)
  have "handle_message peer_closes msg websocket st =
             (None, st\<lparr>sockets := (sockets st)
                (websocket := (sockets st websocket)
                   \<lparr>ws_sent := ws_sent (sockets st websocket) @
                      [JObj [(''type'', JStr ''analysis_queued''),
                             (''analysis_id'', aid),
                             (''status'', JStr ''processing'')],
                       JObj [(''type'', JStr ''analysis_result''),
                             (''analysis_id'', aid),
                             (''status'', JStr ''completed''),
                             (''vulnerabilities'', JArr [])]]\<rparr>)\<rparr>)"
    using assms aid
    by (simp add: handle_message_def send_personal_message_def send_json_def)
  with aid show ?thesis by blast
qed

text \<open>
  Claim C8 at a concrete registry: connection 1 is closed, connection 2 is open.
\<close>

theorem broadcast_isolates_failed_send_witness:
  "active_connections
     (broadcast_to_client (JObj [(''type'', JStr ''notice'')]) ''alice''
        \<lparr>active_connections = [''alice'' \<mapsto> [1, 2]],
         sockets = (\<lambda>h. \<lparr>ws_open = (h = 2), ws_sent = []\<rparr>)\<rparr>) ''alice'' = Some [2]
 \<and> ws_sent (sockets
     (broadcast_to_client (JObj [(''type'', JStr ''notice'')]) ''alice''
        \<lparr>active_connections = [''alice'' \<mapsto> [1, 2]],
         sockets = (\<lambda>h. \<lparr>ws_open = (h = 2), ws_sent = []\<rparr>)\<rparr>) 2) =
     [JObj [(''type'', JStr ''notice'')]]"
proof -
  let ?st = "\<lparr>active_connections = [''alice'' \<mapsto> [1, 2]],
             sockets = (\<lambda>h. \<lparr>ws_open = (h = 2), ws_sent = []\<rparr>)\<rparr>"
  have h1: "active_connections ?st ''alice'' = Some [1, 2]" by simp
  have h2: "set [1, 2] = {1, 2::nat}" by simp
  have h3: "distinct [1, 2::nat]" by simp
  have h4: "(1::nat) \<noteq> 2" by simp
  have h5: "\<not> ws_open (sockets ?st 1)" by simp
  have h6: "ws_open (sockets ?st 2)" by simp
  from broadcast_isolates_failed_send[OF h1 h2 h3 h4 h5 h6, of "JObj [(''type'', JStr ''notice'')]"]
  show ?thesis by simp
qed

text \<open>
  Claim C9 at concrete registries: one client with one closed connection, and with two.
\<close>

theorem broadcast_leaves_empty_set_witness:
  "no_empty_sets \<lparr>active_connections = [''alice'' \<mapsto> [1]],
                  sockets = (\<lambda>h. \<lparr>ws_open = False, ws_sent = []\<rparr>)\<rparr>
 \<and> no_empty_sets (disconnect 1 ''alice''
      \<lparr>active_connections = [''alice'' \<mapsto> [1]],
       sockets = (\<lambda>h. \<lparr>ws_open = False, ws_sent = []\<rparr>)\<rparr>)
 \<and> active_connections (disconnect 1 ''alice''
      \<lparr>active_connections = [''alice'' \<mapsto> [1]],
       sockets = (\<lambda>h. \<lparr>ws_open = False, ws_sent = []\<rparr>)\<rparr>) = Map.empty
 \<and> active_connections (disconnect 1 ''alice''
      \<lparr>active_connections = [''alice'' \<mapsto> [1, 2]],
       sockets = (\<lambda>h. \<lparr>ws_open = False, ws_sent = []\<rparr>)\<rparr>) = [''alice'' \<mapsto> [2]]
 \<and> active_connections (broadcast_to_client (JObj [(''type'', JStr ''notice'')]) ''alice''
      \<lparr>active_connections = [''alice'' \<mapsto> [1]],
       sockets = (\<lambda>h. \<lparr>ws_open = False, ws_sent = []\<rparr>)\<rparr>) ''alice'' = Some []
 \<and> \<not> no_empty_sets (broadcast_to_client (JObj [(''type'', JStr ''notice'')]) ''alice''
      \<lparr>active_connections = [''alice'' \<mapsto> [1]],
       sockets = (\<lambda>h. \<lparr>ws_open = False, ws_sent = []\<rparr>)\<rparr>)"
proof -
  let ?st = "\<lparr>active_connections = [''alice'' \<mapsto> [1]],
             sockets = (\<lambda>h. \<lparr>ws_open = False, ws_sent = []\<rparr>)\<rparr>"
  let ?two = "\<lparr>active_connections = [''alice'' \<mapsto> [1, 2]],
             sockets = (\<lambda>h. \<lparr>ws_open = False, ws_sent = []\<rparr>)\<rparr>"
  have h1: "no_empty_sets ?st" by (simp add: no_empty_sets_def)
  have h2: "active_connections ?st ''alice'' = Some [1] \<and> (\<forall>h\<in>set [1]. \<not> ws_open (sockets ?st h))"
    by simp
  have h3: "active_connections ?st ''alice'' = Some [1] \<and> removeAll 1 [1::nat] = []" by simp
  have h4: "active_connections ?two ''alice'' = Some [1, 2] \<and> removeAll 1 [1, 2::nat] \<noteq> []"
    by simp
  note a = broadcast_leaves_empty_set
             [of ?st 1 "''alice''" "[1]" "JObj [(''type'', JStr ''notice'')]"]
  note b = broadcast_leaves_empty_set
             [of ?two 1 "''alice''" "[1, 2]" "JObj [(''type'', JStr ''notice'')]"]
  have c1: "no_empty_sets (disconnect 1 ''alice'' ?st)" using a h1 by blast
  have c2: "active_connections (disconnect 1 ''alice'' ?st) = Map.empty"
    using a h3 by simp
  have c3: "active_connections (disconnect 1 ''alice'' ?two) = [''alice'' \<mapsto> [2]]"
    using b h4 by simp
  have c4: "active_connections (broadcast_to_client (JObj [(''type'', JStr ''notice'')]) ''alice'' ?st)
              ''alice'' = Some []
          \<and> \<not> no_empty_sets (broadcast_to_client (JObj [(''type'', JStr ''notice'')]) ''alice'' ?st)"
    using a h2 by blast
  from h1 c1 c2 c3 c4 show ?thesis by (intro conjI) simp_all
qed

text \<open>
  Claim C10 at a concrete message.
\<close>

theorem analyze_reply_witness:
  "handle_message False
     (JObj [(''type'', JStr ''analyze''), (''analysis_id'', JStr ''a1'')]) 1
     \<lparr>active_connections = [''alice'' \<mapsto> [1]],
      sockets = (\<lambda>h. \<lparr>ws_open = True, ws_sent = []\<rparr>)\<rparr> =
   (None,
     \<lparr>active_connections = [''alice'' \<mapsto> [1]],
      sockets = (\<lambda>h. \<lparr>ws_open = True, ws_sent = []\<rparr>)
        (1 := \<lparr>ws_open = True,
               ws_sent = [JObj [(''type'', JStr ''analysis_queued''),
                                (''analysis_id'', JStr ''a1''),
                                (''status'', JStr ''processing'')],
                          JObj [(''type'', JStr ''analysis_result''),
                                (''analysis_id'', JStr ''a1''),
                                (''status'', JStr ''completed''),
                                (''vulnerabilities'', JArr [])]]\<rparr>)\<rparr>)"
proof -
  let ?msg = "JObj [(''type'', JStr ''analyze''), (''analysis_id'', JStr ''a1'')]"
  let ?st = "\<lparr>active_connections = [''alice'' \<mapsto> [1]],
             sockets = (\<lambda>h. \<lparr>ws_open = True, ws_sent = []\<rparr>)\<rparr>"
  have h1: "json_get ?msg ''type'' = Inr (JStr ''analyze'')" by (simp add: json_get_def)
  have h2: "ws_open (sockets ?st 1)" by simp
  have h3: "\<not> False" by simp
  have a: "json_get ?msg ''analysis_id'' = Inr (JStr ''a1'')" by (simp add: json_get_def)
  from analyze_reply[OF h1 h2 h3] a
  show ?thesis by auto
qed

text \<open>
  Whether or not the connection accepts the sends, the messages sent for an \<open>analyze\<close>
  message are an initial part of the same two: a result sent never lists a finding.
\<close>

lemma analyze_sends_no_findings:
  assumes "json_get msg ''type'' = Inr (JStr ''analyze'')"
  shows "\<exists>aid k. ws_sent (sockets (snd (handle_message peer_closes msg websocket st)) websocket) =
           ws_sent (sockets st websocket) @
             take k [JObj [(''type'', JStr ''analysis_queued''),
                           (''analysis_id'', aid),
                           (''status'', JStr ''processing'')],
                     JObj [(''type'', JStr ''analysis_result''),
                           (''analysis_id'', aid),
                           (''status'', JStr ''completed''),
                           (''vulnerabilities'', JArr [])]]"
proof -
  obtain kvs where m: "msg = JObj kvs"
    using assms by (cases msg) (simp_all add: json_get_def)
  then obtain aid where aid: "json_get msg ''analysis_id'' = Inr aid"
    by (simp add: json_get_def)
  let ?q = "JObj [(''type'', JStr ''analysis_queued''), (''analysis_id'', aid),
                  (''status'', JStr ''processing'')]"
  let ?r = "JObj [(''type'', JStr ''analysis_result''), (''analysis_id'', aid),
                  (''status'', JStr ''completed''), (''vulnerabilities'', JArr [])]"
  let ?after = "ws_sent (sockets (snd (handle_message peer_closes msg websocket st)) websocket)"
  let ?before = "ws_sent (sockets st websocket)"
  consider "\<not> ws_open (sockets st websocket)"
    | "ws_open (sockets st websocket)" "peer_closes"
    | "ws_open (sockets st websocket)" "\<not> peer_closes" by blast
  then show ?thesis
  proof cases
    case 1
    then have "?after = ?before @ take 0 [?q, ?r]"
      using assms aid by (simp add: handle_message_def send_personal_message_def send_json_def)
    then show ?thesis by blast
  next
    case 2
    then have "?after = ?before @ take 1 [?q, ?r]"
      using assms aid by (simp add: handle_message_def send_personal_message_def send_json_def)
    then show ?thesis by blast
  next
    case 3
    then have "?after = ?before @ take 2 [?q, ?r]"
      using assms aid by (simp add: handle_message_def send_personal_message_def send_json_def)
    then show ?thesis by blast
  qed
qed

end
